theory Spec2Isabelle
  imports Complex_Main
begin

section \<open>Host environment\<close>

text \<open>
  The service is a single file, \<^verbatim>\<open>index.js\<close>. What it reads from its host is collected
  in one record: the directory of the script (\<^verbatim>\<open>__dirname\<close>), the environment variable
  \<^verbatim>\<open>GITHUB_REPO\<close>, the configured size limit \<^verbatim>\<open>CONFIG.MAX_CACHE_SIZE_MB\<close> (as the
  number the comparison \<^verbatim>\<open>stats.totalSizeMB > CONFIG.MAX_CACHE_SIZE_MB\<close> sees) and the
  offset of local time from UTC that the \<^verbatim>\<open>Date\<close> methods use.
  Paths are POSIX paths; strings are lists of bytes.
\<close>

record env =
  dirname :: string
  GITHUB_REPO :: "string option"
  MAX_CACHE_SIZE_MB :: rat
  LocalTZA :: "int \<Rightarrow> bool \<Rightarrow> int"

definition CACHE_DURATION_MONTHS :: int where
  "CACHE_DURATION_MONTHS = 3"

section \<open>Node's \<^verbatim>\<open>path\<close> module (POSIX)\<close>

text \<open>\<^verbatim>\<open>str.split(c)\<close>: the pieces between the occurrences of \<open>c\<close>; never empty.\<close>

fun split_on :: "char \<Rightarrow> string \<Rightarrow> string list" where
  "split_on c [] = [[]]"
| "split_on c (x # xs) =
     (if x = c then [] # split_on c xs
      else (case split_on c xs of
              [] \<Rightarrow> [[x]]
            | s # ss \<Rightarrow> (x # s) # ss))"

text \<open>\<^verbatim>\<open>arr.join(sep)\<close>.\<close>

fun join_with :: "string \<Rightarrow> string list \<Rightarrow> string" where
  "join_with sep [] = []"
| "join_with sep [s] = s"
| "join_with sep (s # t # ss) = s @ sep @ join_with sep (t # ss)"

text \<open>
  One step of \<^verbatim>\<open>normalizeString\<close>, on the segments kept so far: an empty segment and
  \<^verbatim>\<open>.\<close> are dropped; \<^verbatim>\<open>..\<close> removes the last kept segment unless there is none or it
  is itself \<^verbatim>\<open>..\<close>, in which case it is kept only when the path may climb above its
  root (a relative path); every other segment is kept.
\<close>

definition normalizeStep :: "bool \<Rightarrow> string list \<Rightarrow> string \<Rightarrow> string list" where
  "normalizeStep allowAboveRoot res seg =
     (if seg = [] \<or> seg = ''.'' then res
      else if seg = ''..'' then
        (if res \<noteq> [] \<and> last res \<noteq> ''..'' then butlast res
         else if allowAboveRoot then res @ [''..'']
         else res)
      else res @ [seg])"

definition normalizeSegments :: "bool \<Rightarrow> string list \<Rightarrow> string list" where
  "normalizeSegments allowAboveRoot segs = foldl (normalizeStep allowAboveRoot) [] segs"

definition normalizeString :: "string \<Rightarrow> bool \<Rightarrow> string" where
  "normalizeString path allowAboveRoot =
     join_with ''/'' (normalizeSegments allowAboveRoot (split_on CHR ''/'' path))"

text \<open>\<^verbatim>\<open>path.normalize\<close>.\<close>

definition normalizePath :: "string \<Rightarrow> string" where
  "normalizePath path =
     (if path = [] then ''.''
      else
        let isAbsolute = (hd path = CHR ''/'');
            trailingSeparator = (last path = CHR ''/'');
            p = normalizeString path (\<not> isAbsolute)
        in if p = [] then
             (if isAbsolute then ''/'' else if trailingSeparator then ''./'' else ''.'')
           else
             (if isAbsolute then ''/'' else []) @ p @ (if trailingSeparator then ''/'' else []))"

text \<open>\<^verbatim>\<open>path.join\<close>: the non-empty arguments, joined by \<^verbatim>\<open>/\<close> and normalized.\<close>

definition join :: "string list \<Rightarrow> string" where
  "join args =
     (let parts = filter (\<lambda>a. a \<noteq> []) args
      in if parts = [] then ''.'' else normalizePath (join_with ''/'' parts))"

section \<open>ECMAScript time values\<close>

text \<open>
  A \<^verbatim>\<open>Date\<close> is a time value: integral milliseconds since the epoch. The functions
  below are the abstract operations of the language standard (Day, TimeWithinDay,
  DaysInYear, DayFromYear, YearFromTime, InLeapYear, MonthFromTime, DateFromTime, MakeDay,
  MakeDate, LocalTime, UTC) and the two methods the service calls, \<^verbatim>\<open>getMonth\<close> and
  \<^verbatim>\<open>setMonth\<close>. The range limit of time values (TimeClip) is not modelled.
\<close>

definition msPerDay :: int where
  "msPerDay = 86400000"

definition Day :: "int \<Rightarrow> int" where
  "Day t = t div msPerDay"

definition TimeWithinDay :: "int \<Rightarrow> int" where
  "TimeWithinDay t = t mod msPerDay"

definition DaysInYear :: "int \<Rightarrow> int" where
  "DaysInYear y =
     (if y mod 4 \<noteq> 0 then 365
      else if y mod 100 \<noteq> 0 then 366
      else if y mod 400 \<noteq> 0 then 365
      else 366)"

definition DayFromYear :: "int \<Rightarrow> int" where
  "DayFromYear y =
     365 * (y - 1970) + (y - 1969) div 4 - (y - 1901) div 100 + (y - 1601) div 400"

text \<open>
  YearFromTime: the largest year whose first day is not after the given day. The estimate
  from the mean length of a year is off by at most one; \<open>YearFromDay_spec\<close> below shows
  that the result is that year.
\<close>

definition YearFromDay :: "int \<Rightarrow> int" where
  "YearFromDay d =
     (let y = 1970 + (400 * d) div 146097
      in if DayFromYear (y + 1) \<le> d then y + 1
         else if DayFromYear y \<le> d then y
         else y - 1)"

definition YearFromTime :: "int \<Rightarrow> int" where
  "YearFromTime t = YearFromDay (Day t)"

definition InLeapYear :: "int \<Rightarrow> int" where
  "InLeapYear t = (if DaysInYear (YearFromTime t) = 366 then 1 else 0)"

definition DayWithinYear :: "int \<Rightarrow> int" where
  "DayWithinYear t = Day t - DayFromYear (YearFromTime t)"

text \<open>
  The day within the year on which month \<open>m\<close> (0 to 11) starts; MonthFromTime and
  DateFromTime are the standard's tables, read off this one.
\<close>

definition monthStart :: "int \<Rightarrow> int \<Rightarrow> int" where
  "monthStart m leap =
     (if m = 0 then 0 else if m = 1 then 31 else if m = 2 then 59 + leap
      else if m = 3 then 90 + leap else if m = 4 then 120 + leap
      else if m = 5 then 151 + leap else if m = 6 then 181 + leap
      else if m = 7 then 212 + leap else if m = 8 then 243 + leap
      else if m = 9 then 273 + leap else if m = 10 then 304 + leap
      else 334 + leap)"

definition MonthFromTime :: "int \<Rightarrow> int" where
  "MonthFromTime t =
     (let d = DayWithinYear t; leap = InLeapYear t
      in if d < 31 then 0 else if d < 59 + leap then 1 else if d < 90 + leap then 2
         else if d < 120 + leap then 3 else if d < 151 + leap then 4
         else if d < 181 + leap then 5 else if d < 212 + leap then 6
         else if d < 243 + leap then 7 else if d < 273 + leap then 8
         else if d < 304 + leap then 9 else if d < 334 + leap then 10
         else 11)"

definition DateFromTime :: "int \<Rightarrow> int" where
  "DateFromTime t = DayWithinYear t - monthStart (MonthFromTime t) (InLeapYear t) + 1"

text \<open>
  MakeDay: the day number of the given date of the given month, where the month may lie
  outside 0 to 11 (it carries into the year) and the date outside the month (it carries
  into the following days; the 31st of a month of 30 days is the 1st of the next).
\<close>

definition MakeDay :: "int \<Rightarrow> int \<Rightarrow> int \<Rightarrow> int" where
  "MakeDay year month date =
     (let ym = year + month div 12;
          mn = month mod 12
      in DayFromYear ym + monthStart mn (if DaysInYear ym = 366 then 1 else 0) + date - 1)"

definition MakeDate :: "int \<Rightarrow> int \<Rightarrow> int" where
  "MakeDate day time = day * msPerDay + time"

definition LocalTime :: "env \<Rightarrow> int \<Rightarrow> int" where
  "LocalTime e t = t + LocalTZA e t True"

definition UTC :: "env \<Rightarrow> int \<Rightarrow> int" where
  "UTC e t = t - LocalTZA e t False"

text \<open>
  \<^verbatim>\<open>Date.prototype.getMonth\<close> and \<^verbatim>\<open>Date.prototype.setMonth(month)\<close>, in local time; the
  latter keeps the date within the month and the time within the day.
\<close>

definition getMonth :: "env \<Rightarrow> int \<Rightarrow> int" where
  "getMonth e tv = MonthFromTime (LocalTime e tv)"

definition setMonth :: "env \<Rightarrow> int \<Rightarrow> int \<Rightarrow> int" where
  "setMonth e tv month =
     (let t = LocalTime e tv;
          newDate = MakeDate (MakeDay (YearFromTime t) month (DateFromTime t)) (TimeWithinDay t)
      in UTC e newDate)"

text \<open>
  \<^verbatim>\<open>const threeMonthsAgo = new Date();
  threeMonthsAgo.setMonth(threeMonthsAgo.getMonth() - CONFIG.CACHE_DURATION_MONTHS);\<close>
\<close>

definition threeMonthsAgo :: "env \<Rightarrow> int \<Rightarrow> int" where
  "threeMonthsAgo e now = setMonth e now (getMonth e now - CACHE_DURATION_MONTHS)"

section \<open>Cache locations\<close>

text \<open>\<^verbatim>\<open>const cacheDir = path.join(__dirname, 'cache')\<close>.\<close>

definition cacheDir :: "env \<Rightarrow> string" where
  "cacheDir e = join [dirname e, ''cache'']"

text \<open>\<^verbatim>\<open>function getCacheFilePath(filename) { return path.join(cacheDir, filename); }\<close>\<close>

definition getCacheFilePath :: "env \<Rightarrow> string \<Rightarrow> string" where
  "getCacheFilePath e filename = join [cacheDir e, filename]"

text \<open>A location lies inside a directory when it is the directory followed by \<^verbatim>\<open>/\<close> and more.\<close>

definition inside_dir :: "string \<Rightarrow> string \<Rightarrow> bool" where
  "inside_dir dir p = (length dir + 1 < length p \<and> take (length dir + 1) p = dir @ ''/'')"

section \<open>The file system\<close>

text \<open>
  The file system is the list of its nodes, regular files and directories, each under its
  absolute path, in the order in which a directory listing returns them. A node carries
  its bytes (for a directory: its own data block, whose length is the size that
  \<^verbatim>\<open>stat\<close> reports), its modification time, and two faults of the host: whether
  reading its metadata fails and whether removing it fails. Listing a directory and writing
  to a path can fail too; these faults are given per path. The modification time of a
  directory is a datum of the state: it is not advanced when a file is created or removed
  inside it. Node paths have no trailing separator and, as on every host, no NUL byte, so
  a path with a NUL byte leads to no node.
\<close>

type_synonym buffer = "char list"

datatype error =
  ENOENT | EACCES | EPERM | ENOTDIR | EISDIR | EINVAL
| TypeError
| RepoNotSet
| FetchNotOk nat string
| NetworkError string

record fnode =
  content :: buffer
  modified :: int
  isDirectory :: bool
  statFails :: bool
  unlinkFails :: bool

record fs =
  entries :: "(string \<times> fnode) list"
  readdirFails :: "string \<Rightarrow> bool"
  writeFails :: "string \<Rightarrow> bool"

record stats =
  st_size :: nat
  st_mtime :: int

text \<open>
  The node a path leads to. A trailing separator is allowed on the path of a directory
  only.
\<close>

definition hasTrailingSlash :: "string \<Rightarrow> bool" where
  "hasTrailingSlash p = (1 < length p \<and> last p = CHR ''/'')"

definition stripTrailing :: "string \<Rightarrow> string" where
  "stripTrailing p = (if hasTrailingSlash p then butlast p else p)"

definition nodeAt :: "fs \<Rightarrow> string \<Rightarrow> error + fnode" where
  "nodeAt s p =
     (case map_of (entries s) (stripTrailing p) of
        None \<Rightarrow> Inl ENOENT
      | Some f \<Rightarrow>
          if statFails f then Inl EACCES
          else if hasTrailingSlash p \<and> \<not> isDirectory f then Inl ENOTDIR
          else Inr f)"

text \<open>
  \<^verbatim>\<open>fs.statSync\<close> and \<^verbatim>\<open>fsPromises.stat\<close>: they succeed on regular files and on
  directories alike.
\<close>

definition stat :: "fs \<Rightarrow> string \<Rightarrow> error + stats" where
  "stat s p =
     (case nodeAt s p of
        Inl err \<Rightarrow> Inl err
      | Inr f \<Rightarrow> Inr \<lparr> st_size = length (content f), st_mtime = modified f \<rparr>)"

text \<open>\<^verbatim>\<open>fs.existsSync\<close>: whether the path can be reached; it never throws.\<close>

definition existsSync :: "fs \<Rightarrow> string \<Rightarrow> bool" where
  "existsSync s p = (case stat s p of Inl _ \<Rightarrow> False | Inr _ \<Rightarrow> True)"

text \<open>
  The name of a path directly inside a directory: what remains after the directory and a
  \<^verbatim>\<open>/\<close>, when that is one segment other than \<^verbatim>\<open>.\<close> and \<^verbatim>\<open>..\<close>.
\<close>

definition validName :: "string \<Rightarrow> bool" where
  "validName n = (n \<noteq> [] \<and> CHR ''/'' \<notin> set n \<and> n \<noteq> ''.'' \<and> n \<noteq> ''..'')"

definition childName :: "string \<Rightarrow> string \<Rightarrow> string option" where
  "childName dir p =
     (if take (length dir + 1) p = dir @ ''/'' \<and> validName (drop (length dir + 1) p)
      then Some (drop (length dir + 1) p) else None)"

text \<open>\<^verbatim>\<open>fsPromises.readdir\<close>.\<close>

definition readdir :: "fs \<Rightarrow> string \<Rightarrow> error + string list" where
  "readdir s dir =
     (if readdirFails s dir then Inl EACCES
      else Inr (List.map_filter (childName dir) (map fst (entries s))))"

text \<open>\<^verbatim>\<open>fsPromises.unlink\<close>; it does not remove a directory.\<close>

definition canUnlink :: "fnode \<Rightarrow> bool" where
  "canUnlink f = (\<not> unlinkFails f \<and> \<not> isDirectory f)"

definition unlink :: "fs \<Rightarrow> string \<Rightarrow> error + fs" where
  "unlink s p =
     (case map_of (entries s) p of
        None \<Rightarrow> Inl ENOENT
      | Some f \<Rightarrow>
          if \<not> canUnlink f then (if unlinkFails f then Inl EPERM else Inl EISDIR)
          else Inr (s\<lparr> entries := filter (\<lambda>(k, _). k \<noteq> p) (entries s) \<rparr>))"

text \<open>
  \<^verbatim>\<open>path.dirname\<close> of a path without trailing separator: the path without its last
  segment.
\<close>

definition dirnamePath :: "string \<Rightarrow> string" where
  "dirnamePath p =
     (let d = join_with ''/'' (butlast (split_on CHR ''/'' p))
      in if d = [] then (if p \<noteq> [] \<and> hd p = CHR ''/'' then ''/'' else ''.'') else d)"

text \<open>
  \<^verbatim>\<open>fs.writeFileSync\<close>: an existing file gets the new bytes and the current time; a new
  file is created at the end of the listing. The call throws for a path with a NUL byte,
  for a path with a trailing separator, where the host refuses the write, for the path
  of a directory, and for a new file whose parent is not a directory that can be reached.
\<close>

fun put_file :: "string \<Rightarrow> buffer \<Rightarrow> int \<Rightarrow> (string \<times> fnode) list \<Rightarrow> (string \<times> fnode) list" where
  "put_file p buf now [] =
     [(p, \<lparr> content = buf, modified = now, isDirectory = False, statFails = False,
           unlinkFails = False \<rparr>)]"
| "put_file p buf now ((k, f) # es) =
     (if k = p then (k, f\<lparr> content := buf, modified := now \<rparr>) # es
      else (k, f) # put_file p buf now es)"

definition writeFileSync :: "fs \<Rightarrow> int \<Rightarrow> string \<Rightarrow> buffer \<Rightarrow> error + fs" where
  "writeFileSync s now p buf =
     (if CHR 0x00 \<in> set p then Inl EINVAL
      else if p = [] \<or> last p = CHR ''/'' then Inl EISDIR
      else if writeFails s p then Inl EACCES
      else (case map_of (entries s) p of
              Some f \<Rightarrow>
                if isDirectory f then Inl EISDIR
                else Inr (s\<lparr> entries := put_file p buf now (entries s) \<rparr>)
            | None \<Rightarrow>
                (case nodeAt s (dirnamePath p) of
                   Inl err \<Rightarrow> Inl err
                 | Inr d \<Rightarrow>
                     if \<not> isDirectory d then Inl ENOTDIR
                     else Inr (s\<lparr> entries := put_file p buf now (entries s) \<rparr>))))"

section \<open>Cache management\<close>

text \<open>
  Every operation reads the clock once: \<open>now\<close> is the value of \<^verbatim>\<open>new Date()\<close> and of
  \<^verbatim>\<open>Date.now()\<close> throughout one call.
\<close>

text \<open>
  \<^verbatim>\<open>isCacheValid(filePath)\<close>: false when the file does not exist; otherwise whether its
  modification time is after the instant three months ago. The call of \<^verbatim>\<open>statSync\<close>
  can throw.
\<close>

definition isCacheValid :: "env \<Rightarrow> fs \<Rightarrow> int \<Rightarrow> string \<Rightarrow> error + bool" where
  "isCacheValid e s now filePath =
     (if \<not> existsSync s filePath then Inr False
      else (case stat s filePath of
              Inl err \<Rightarrow> Inl err
            | Inr stats \<Rightarrow> Inr (st_mtime stats > threeMonthsAgo e now)))"

record expired_file =
  ef_name :: string
  ef_path :: string
  ef_size :: nat
  ef_age :: int

text \<open>
  The loop of \<^verbatim>\<open>getExpiredCacheFiles\<close> over the directory listing: a file whose
  metadata cannot be read is skipped (the inner \<^verbatim>\<open>catch\<close>).
\<close>

fun expiredLoop :: "env \<Rightarrow> fs \<Rightarrow> int \<Rightarrow> int \<Rightarrow> string list \<Rightarrow> expired_file list" where
  "expiredLoop e s now cutoff [] = []"
| "expiredLoop e s now cutoff (file # files) =
     (let filePath = join [cacheDir e, file]
      in case stat s filePath of
           Inl statError \<Rightarrow> expiredLoop e s now cutoff files
         | Inr stats \<Rightarrow>
             if st_mtime stats \<le> cutoff then
               \<lparr> ef_name = file, ef_path = filePath, ef_size = st_size stats,
                 ef_age = now - st_mtime stats \<rparr> # expiredLoop e s now cutoff files
             else expiredLoop e s now cutoff files)"

text \<open>\<^verbatim>\<open>getExpiredCacheFiles()\<close>: the outer \<^verbatim>\<open>catch\<close> returns the empty array.\<close>

definition getExpiredCacheFiles :: "env \<Rightarrow> fs \<Rightarrow> int \<Rightarrow> expired_file list" where
  "getExpiredCacheFiles e s now =
     (case readdir s (cacheDir e) of
        Inl err \<Rightarrow> []
      | Inr files \<Rightarrow> expiredLoop e s now (threeMonthsAgo e now) files)"

record cleanup_result =
  deletedCount :: nat
  freedSpace :: nat

text \<open>
  The loop of \<^verbatim>\<open>cleanupExpiredCacheFiles\<close>: a file that cannot be removed is skipped
  (the inner \<^verbatim>\<open>catch\<close>); the counters grow only after a removal.
\<close>

fun unlinkLoop :: "fs \<Rightarrow> expired_file list \<Rightarrow> nat \<Rightarrow> nat \<Rightarrow> fs \<times> nat \<times> nat" where
  "unlinkLoop s [] deleted freed = (s, deleted, freed)"
| "unlinkLoop s (file # files) deleted freed =
     (case unlink s (ef_path file) of
        Inl unlinkError \<Rightarrow> unlinkLoop s files deleted freed
      | Inr s' \<Rightarrow> unlinkLoop s' files (deleted + 1) (freed + ef_size file))"

text \<open>\<^verbatim>\<open>cleanupExpiredCacheFiles()\<close>: the file system after the call, and the report.\<close>

definition cleanupExpiredCacheFiles :: "env \<Rightarrow> fs \<Rightarrow> int \<Rightarrow> fs \<times> cleanup_result" where
  "cleanupExpiredCacheFiles e s now =
     (let expiredFiles = getExpiredCacheFiles e s now
      in if length expiredFiles = 0 then (s, \<lparr> deletedCount = 0, freedSpace = 0 \<rparr>)
         else (case unlinkLoop s expiredFiles 0 0 of
                 (s', deleted, freed) \<Rightarrow> (s', \<lparr> deletedCount = deleted, freedSpace = freed \<rparr>)))"

record cache_stats =
  totalFiles :: nat
  totalSize :: nat
  totalSizeMB :: rat

text \<open>The loop of \<^verbatim>\<open>getCacheStats\<close>: total size and number of the files that can be read.\<close>

fun statsLoop :: "env \<Rightarrow> fs \<Rightarrow> string list \<Rightarrow> nat \<Rightarrow> nat \<Rightarrow> nat \<times> nat" where
  "statsLoop e s [] sizeSum fileCount = (sizeSum, fileCount)"
| "statsLoop e s (file # files) sizeSum fileCount =
     (case stat s (join [cacheDir e, file]) of
        Inl statError \<Rightarrow> statsLoop e s files sizeSum fileCount
      | Inr stats \<Rightarrow> statsLoop e s files (sizeSum + st_size stats) (fileCount + 1))"

text \<open>\<^verbatim>\<open>getCacheStats()\<close>: the outer \<^verbatim>\<open>catch\<close> returns the zero record.\<close>

definition getCacheStats :: "env \<Rightarrow> fs \<Rightarrow> cache_stats" where
  "getCacheStats e s =
     (case readdir s (cacheDir e) of
        Inl err \<Rightarrow> \<lparr> totalFiles = 0, totalSize = 0, totalSizeMB = 0 \<rparr>
      | Inr files \<Rightarrow>
          (case statsLoop e s files 0 0 of
             (sizeSum, fileCount) \<Rightarrow>
               \<lparr> totalFiles = fileCount, totalSize = sizeSum,
                 totalSizeMB = rat_of_nat sizeSum / 1024 / 1024 \<rparr>))"

section \<open>The remote source\<close>

text \<open>
  The network is a function from a URL to the outcome of \<^verbatim>\<open>fetch(url)\<close>: a rejection or
  a reply. \<^verbatim>\<open>fetchFromGitHubRaw(filename)\<close> builds the URL from \<^verbatim>\<open>GITHUB_REPO\<close>
  (\<^verbatim>\<open>owner/repo/branch\<close>; a missing part prints as \<^verbatim>\<open>undefined\<close>), throws when the
  variable is unset or empty or when the reply is not ok, and returns the body otherwise.
\<close>

record http_reply =
  ok :: bool
  status :: nat
  statusText :: string
  body :: buffer

type_synonym network = "string \<Rightarrow> error + http_reply"

definition part_or_undefined :: "string list \<Rightarrow> nat \<Rightarrow> string" where
  "part_or_undefined parts i = (if i < length parts then parts ! i else ''undefined'')"

definition rawUrl :: "string \<Rightarrow> string \<Rightarrow> string" where
  "rawUrl repoSpec filename =
     (let parts = split_on CHR ''/'' repoSpec;
          owner = part_or_undefined parts 0;
          repo = part_or_undefined parts 1;
          branch = part_or_undefined parts 2
      in ''https://raw.githubusercontent.com/'' @ owner @ ''/'' @ repo @ ''/refs/heads/''
           @ branch @ ''/'' @ filename)"

definition fetchFromGitHubRaw :: "env \<Rightarrow> network \<Rightarrow> string \<Rightarrow> error + buffer" where
  "fetchFromGitHubRaw e fetch filename =
     (case GITHUB_REPO e of
        None \<Rightarrow> Inl RepoNotSet
      | Some repoSpec \<Rightarrow>
          if repoSpec = [] then Inl RepoNotSet
          else (case fetch (rawUrl repoSpec filename) of
                  Inl err \<Rightarrow> Inl err
                | Inr response \<Rightarrow>
                    if \<not> ok response
                    then Inl (FetchNotOk (status response) (statusText response))
                    else Inr (body response)))"

section \<open>The proxy route\<close>

text \<open>
  \<^verbatim>\<open>path.extname\<close>: within the last non-empty segment, from the last dot to the end;
  empty when there is no dot, when the only dot is the first character, and for \<^verbatim>\<open>..\<close>.
\<close>

definition lastSegment :: "string \<Rightarrow> string" where
  "lastSegment path =
     (let segs = filter (\<lambda>seg. seg \<noteq> []) (split_on CHR ''/'' path)
      in if segs = [] then [] else last segs)"

definition extname :: "string \<Rightarrow> string" where
  "extname path =
     (let base = lastSegment path;
          ext = last (split_on CHR ''.'' base)
      in if CHR ''.'' \<notin> set base then []
         else if length ext + 1 = length base then []
         else if base = ''..'' then []
         else CHR ''.'' # ext)"

definition toLowerCase :: "string \<Rightarrow> string" where
  "toLowerCase str =
     map (\<lambda>c. let n = (of_char c :: nat) in if 65 \<le> n \<and> n \<le> 90 then char_of (n + 32) else c) str"

definition contentTypeOf :: "string \<Rightarrow> string" where
  "contentTypeOf filename =
     (let ext = toLowerCase (extname filename)
      in if ext = ''.png'' then ''image/png''
         else if ext = ''.jpg'' \<or> ext = ''.jpeg'' then ''image/jpeg''
         else if ext = ''.gif'' then ''image/gif''
         else if ext = ''.webp'' then ''image/webp''
         else if ext = ''.svg'' then ''image/svg+xml''
         else ''application/octet-stream'')"

text \<open>
  What a request is answered with: the regular file at a path, streamed by
  \<^verbatim>\<open>res.sendFile\<close>; \<^verbatim>\<open>res.send(buffer)\<close> with a content type;
  \<^verbatim>\<open>res.status(n).json({error: message})\<close>; or the framework's own page for a request
  that no route answered (status 404).
\<close>

datatype response =
  SendFile string
| Send string buffer
| Json nat string
| NotFoundPage

definition notFound :: response where
  "notFound = Json 404 ''File not found or fetch failed''"

text \<open>
  The error-handling middleware at the end of the script:
  \<^verbatim>\<open>res.status(500).json({ error: 'Internal server error' })\<close>.
\<close>

definition internalError :: response where
  "internalError = Json 500 ''Internal server error''"

text \<open>
  \<^verbatim>\<open>res.sendFile(path)\<close> without options, for a request without conditional or range
  headers, as Express 4 and its \<^verbatim>\<open>send\<close> module do it. The stream refuses a path with
  a NUL byte, a path with a \<^verbatim>\<open>..\<close> segment (between \<^verbatim>\<open>/\<close> or backslash
  separators), and a path whose last segment starts with a dot (the default treatment of
  dotfiles); for a path with a trailing separator it looks for \<^verbatim>\<open>index.html\<close> inside;
  otherwise it reads the metadata and streams a regular file. Every refusal and error is
  passed to \<^verbatim>\<open>next(err)\<close> and ends in the error-handling middleware; a directory is
  passed on with \<^verbatim>\<open>next()\<close> and no later route answers.
\<close>

fun upPathFrom :: "bool \<Rightarrow> string \<Rightarrow> bool" where
  "upPathFrom atStart [] = False"
| "upPathFrom atStart (c # cs) =
     ((atStart \<and> c = CHR ''.'' \<and>
        (case cs of
           [] \<Rightarrow> False
         | d # rest \<Rightarrow>
             d = CHR ''.'' \<and>
             (case rest of [] \<Rightarrow> True | x # _ \<Rightarrow> x = CHR ''/'' \<or> x = CHR 0x5C)))
      \<or> upPathFrom (c = CHR ''/'' \<or> c = CHR 0x5C) cs)"

definition upPath :: "string \<Rightarrow> bool" where
  "upPath p = upPathFrom True p"

definition containsDotFile :: "string list \<Rightarrow> bool" where
  "containsDotFile parts = list_ex (\<lambda>part. 1 < length part \<and> hd part = CHR ''.'') parts"

definition dotfileIgnored :: "string \<Rightarrow> bool" where
  "dotfileIgnored p =
     (let parts = split_on CHR ''/'' (normalizePath p)
      in containsDotFile parts \<and> (case last parts of [] \<Rightarrow> False | c # _ \<Rightarrow> c = CHR ''.''))"

definition sendStream :: "fs \<Rightarrow> string \<Rightarrow> response" where
  "sendStream s p =
     (if CHR 0x00 \<in> set p then internalError
      else if upPath p then internalError
      else if dotfileIgnored p then internalError
      else if p \<noteq> [] \<and> last p = CHR ''/'' then
        (case nodeAt s (join [p, ''index.html'']) of
           Inl err \<Rightarrow> internalError
         | Inr f \<Rightarrow>
             if isDirectory f then internalError else SendFile (join [p, ''index.html'']))
      else
        (case nodeAt s p of
           Inl err \<Rightarrow> internalError
         | Inr f \<Rightarrow> if isDirectory f then NotFoundPage else SendFile p))"

text \<open>The call itself throws when the path is empty or not absolute.\<close>

definition sendFile :: "fs \<Rightarrow> string \<Rightarrow> error + response" where
  "sendFile s p =
     (if p = [] \<or> hd p \<noteq> CHR ''/'' then Inl TypeError else Inr (sendStream s p))"

text \<open>The bytes a response carries.\<close>

definition servedBytes :: "fs \<Rightarrow> response \<Rightarrow> buffer option" where
  "servedBytes s r =
     (case r of
        SendFile p \<Rightarrow>
          (case nodeAt s p of
             Inl err \<Rightarrow> None
           | Inr f \<Rightarrow> if isDirectory f then None else Some (content f))
      | Send contentType buf \<Rightarrow> Some buf
      | Json code message \<Rightarrow> None
      | NotFoundPage \<Rightarrow> None)"

text \<open>
  The calls a request makes, in order: the remote fetch for a key, the write of a cache
  file, the reading of the cache statistics, a sweep with its report, and the answer.
\<close>

datatype event =
  RemoteFetch string
| CacheWrite string
| StatsRead cache_stats
| Sweep cleanup_result
| Respond response

text \<open>
  \<^verbatim>\<open>app.get('/proxy/:filename', ...)\<close>: the file system after the request and the calls
  made. Every exception inside the \<^verbatim>\<open>try\<close> block ends in the same answer, status 404.
  On a hit the route also reads the metadata of the file for its log line, inside a
  \<^verbatim>\<open>try\<close> of its own; that has no effect on the answer.
\<close>

definition proxy :: "env \<Rightarrow> network \<Rightarrow> fs \<Rightarrow> int \<Rightarrow> string \<Rightarrow> fs \<times> event list" where
  "proxy e fetch s now filename =
     (let cacheFilePath = getCacheFilePath e filename
      in case isCacheValid e s now cacheFilePath of
           Inl err \<Rightarrow> (s, [Respond notFound])
         | Inr True \<Rightarrow>
             (case sendFile s cacheFilePath of
                Inl err \<Rightarrow> (s, [Respond notFound])
              | Inr answer \<Rightarrow> (s, [Respond answer]))
         | Inr False \<Rightarrow>
             (case fetchFromGitHubRaw e fetch filename of
                Inl err \<Rightarrow> (s, [RemoteFetch filename, Respond notFound])
              | Inr fileBuffer \<Rightarrow>
                  (case writeFileSync s now cacheFilePath fileBuffer of
                     Inl err \<Rightarrow> (s, [RemoteFetch filename, Respond notFound])
                   | Inr s1 \<Rightarrow>
                       let stats = getCacheStats e s1;
                           swept = (if totalSizeMB stats > MAX_CACHE_SIZE_MB e
                                    then (case cleanupExpiredCacheFiles e s1 now of
                                            (s2, report) \<Rightarrow> (s2, [Sweep report]))
                                    else (s1, []))
                       in (fst swept,
                           [RemoteFetch filename, CacheWrite cacheFilePath, StatsRead stats]
                             @ snd swept
                             @ [Respond (Send (contentTypeOf filename) fileBuffer)]))))"

section \<open>Well-formed states and derived notions\<close>

text \<open>
  A directory path as \<^verbatim>\<open>__dirname\<close> delivers it: absolute, normalized, without a
  trailing separator.
\<close>

definition wf_dir :: "string \<Rightarrow> bool" where
  "wf_dir d = (d \<noteq> [] \<and> hd d = CHR ''/'' \<and> last d \<noteq> CHR ''/'' \<and> normalizePath d = d)"

text \<open>No path names two files.\<close>

definition wf_fs :: "fs \<Rightarrow> bool" where
  "wf_fs s = distinct (map fst (entries s))"

text \<open>The local time offset stays within a day.\<close>

definition tz_sane :: "env \<Rightarrow> bool" where
  "tz_sane e = (\<forall>t b. \<bar>LocalTZA e t b\<bar> \<le> msPerDay)"

text \<open>
  An entry of the cache directory that the enumeration reports as expired: it lies directly
  in the directory, its metadata can be read and it was modified at or before the instant
  three months ago. It is removable when, in addition, its removal does not fail (it is
  not a directory, and the host does not refuse).
\<close>

definition expiredEntry :: "env \<Rightarrow> int \<Rightarrow> string \<times> fnode \<Rightarrow> bool" where
  "expiredEntry e now en =
     (childName (cacheDir e) (fst en) \<noteq> None \<and> \<not> statFails (snd en)
      \<and> modified (snd en) \<le> threeMonthsAgo e now)"

definition removable :: "env \<Rightarrow> int \<Rightarrow> string \<times> fnode \<Rightarrow> bool" where
  "removable e now en = (expiredEntry e now en \<and> canUnlink (snd en))"

definition expiredRecord :: "env \<Rightarrow> int \<Rightarrow> string \<times> fnode \<Rightarrow> expired_file" where
  "expiredRecord e now en =
     \<lparr> ef_name = drop (length (cacheDir e) + 1) (fst en), ef_path = fst en,
       ef_size = length (content (snd en)), ef_age = now - modified (snd en) \<rparr>"

text \<open>The keys for which a request called the remote source, in order.\<close>

definition fetchCalls :: "event list \<Rightarrow> string list" where
  "fetchCalls tr = concat (map (\<lambda>ev. case ev of RemoteFetch k \<Rightarrow> [k] | _ \<Rightarrow> []) tr)"

text \<open>
  What a request is answered with on a hit: the answer of \<^verbatim>\<open>res.sendFile\<close>, or the
  answer of the route's \<^verbatim>\<open>catch\<close> when that call throws.
\<close>

definition hitAnswer :: "fs \<Rightarrow> string \<Rightarrow> response" where
  "hitAnswer s p = (case sendFile s p of Inl err \<Rightarrow> notFound | Inr answer \<Rightarrow> answer)"

text \<open>The local time offset is the same at every instant (no daylight-saving change).\<close>

definition fixedOffset :: "env \<Rightarrow> bool" where
  "fixedOffset e = (\<forall>t b t' b'. LocalTZA e t b = LocalTZA e t' b')"


section \<open>Concrete instances\<close>

text \<open>An installation under \<^verbatim>\<open>/app\<close>, used in the concrete instances below.\<close>

definition env0 :: env where
  "env0 = \<lparr> dirname = ''/app'', GITHUB_REPO = Some ''o/r/main'',
            MAX_CACHE_SIZE_MB = 1024, LocalTZA = (\<lambda>t b. 0) \<rparr>"

text \<open>
  The directories of that installation, as the script finds or creates them at start-up.
\<close>

definition dirNode :: "int \<Rightarrow> fnode" where
  "dirNode m = \<lparr> content = [], modified = m, isDirectory = True, statFails = False,
                unlinkFails = False \<rparr>"

definition hostDirs :: "(string \<times> fnode) list" where
  "hostDirs = [(''/'', dirNode 1790000000000), (''/app'', dirNode 1790000000000),
               (''/app/cache'', dirNode 1793000000000)]"

text \<open>
  The instant 2026-11-03T08:00:00Z and a cache with four entries: one modified exactly
  three months before that instant, one a millisecond later, one old entry that cannot be
  removed and one old entry whose metadata cannot be read.
\<close>

definition now0 :: int where
  "now0 = 1793700000000"

definition fs0 :: fs where
  "fs0 = \<lparr> entries =
      [(''/app/cache/old.png'',
          \<lparr> content = ''abc'', modified = 1785751200000, isDirectory = False,
            statFails = False, unlinkFails = False \<rparr>),
       (''/app/cache/new.png'',
          \<lparr> content = ''hello'', modified = 1785751200001, isDirectory = False,
            statFails = False, unlinkFails = False \<rparr>),
       (''/app/cache/stuck.png'',
          \<lparr> content = ''xy'', modified = 5, isDirectory = False,
            statFails = False, unlinkFails = True \<rparr>),
       (''/app/cache/ghost.png'',
          \<lparr> content = ''q'', modified = 5, isDirectory = False,
            statFails = True, unlinkFails = False \<rparr>)] @ hostDirs,
      readdirFails = (\<lambda>d. False), writeFails = (\<lambda>p. False) \<rparr>"

text \<open>A file system that holds the service's own script, modified a second ago.\<close>

definition fsScript :: fs where
  "fsScript = \<lparr> entries =
      [(''/app/index.js'',
          \<lparr> content = ''require'', modified = 1793699999000, isDirectory = False,
            statFails = False, unlinkFails = False \<rparr>)] @ hostDirs,
      readdirFails = (\<lambda>d. False), writeFails = (\<lambda>p. False) \<rparr>"

text \<open>
  The instant 2026-05-31T00:00:00Z, and for an instant \<open>t\<close> a cache whose one entry was
  modified exactly 90 days before \<open>t\<close>.
\<close>

definition nowMay :: int where
  "nowMay = 1780185600000"

definition fsAged :: "int \<Rightarrow> fs" where
  "fsAged t = \<lparr> entries =
      [(''/app/cache/a.png'',
          \<lparr> content = ''abc'', modified = t - 90 * msPerDay, isDirectory = False,
            statFails = False, unlinkFails = False \<rparr>)] @ hostDirs,
      readdirFails = (\<lambda>d. False), writeFails = (\<lambda>p. False) \<rparr>"

text \<open>A network that is down, and one that answers every request with the same seven bytes.\<close>

definition net_down :: network where
  "net_down url = Inl (NetworkError ''down'')"

definition net_ok :: network where
  "net_ok url = Inr \<lparr> ok = True, status = 200, statusText = ''OK'', body = ''PNGDATA'' \<rparr>"


definition fsEmpty :: fs where
  "fsEmpty = \<lparr> entries = hostDirs, readdirFails = (\<lambda>d. False), writeFails = (\<lambda>p. False) \<rparr>"

definition fsReadOnly :: fs where
  "fsReadOnly = fsEmpty\<lparr> writeFails := (\<lambda>p. True) \<rparr>"

text \<open>The empty cache after the file \<^verbatim>\<open>.gitignore\<close> was fetched and stored at \<open>now0\<close>.\<close>

definition fsDot :: fs where
  "fsDot = fsEmpty\<lparr> entries := hostDirs @ [(''/app/cache/.gitignore'',
      \<lparr> content = ''PNGDATA'', modified = now0, isDirectory = False,
        statFails = False, unlinkFails = False \<rparr>)] \<rparr>"

section \<open>Auxiliary facts\<close>

lemmas path_eval = getCacheFilePath_def cacheDir_def join_def normalizePath_def normalizeString_def
  normalizeSegments_def normalizeStep_def inside_dir_def env0_def

subsection \<open>The year of a day\<close>

text \<open>
  The year computed for a day starts at or before that day, and the next year starts after
  it.
\<close>

lemma div_bounds: "0 < k \<Longrightarrow> k * (x div k) \<le> x \<and> x < k * (x div k) + (k::int)"
  by (metis add.commute mult.commute pos_mod_bound pos_mod_sign mult_div_mod_eq
      add_le_cancel_left add_less_cancel_left add.right_neutral le_add_same_cancel1)

lemma DayFromYear_bounds:
  "146097 * m - 506 \<le> 400 * DayFromYear (1970 + m)
   \<and> 400 * DayFromYear (1970 + m) \<le> 146097 * m + 589"
proof -
  define a where "a = (m + 1) div 4"
  define b where "b = (m + 69) div 100"
  define c where "c = (m + 369) div 400"
  have a: "4 * a \<le> m + 1" "m + 1 < 4 * a + 4"
    using div_bounds [of 4 "m + 1"] by (simp_all add: a_def)
  have b: "100 * b \<le> m + 69" "m + 69 < 100 * b + 100"
    using div_bounds [of 100 "m + 69"] by (simp_all add: b_def)
  have c: "400 * c \<le> m + 369" "m + 369 < 400 * c + 400"
    using div_bounds [of 400 "m + 369"] by (simp_all add: c_def)
  have "DayFromYear (1970 + m) = 365 * m + a - b + c"
    by (simp add: DayFromYear_def a_def b_def c_def add.commute)
  with a b c show ?thesis by linarith
qed

lemma YearFromDay_spec:
  "DayFromYear (YearFromDay d) \<le> d \<and> d < DayFromYear (YearFromDay d + 1)"
proof -
  define n where "n = (400 * d) div 146097"
  have n: "146097 * n \<le> 400 * d" "400 * d < 146097 * n + 146097"
    using div_bounds [of 146097 "400 * d"] by (simp_all add: n_def)
  have lower: "DayFromYear (1970 + n - 1) \<le> d"
    using DayFromYear_bounds [of "n - 1"] n by simp
  have upper: "d < DayFromYear (1970 + n + 1 + 1)"
    using DayFromYear_bounds [of "n + 2"] n by simp
  show ?thesis
    unfolding YearFromDay_def Let_def n_def [symmetric]
    using lower upper by auto
qed

subsection \<open>The instant three months ago lies in the past\<close>

lemma year_step_arith: "p' \<le> p \<Longrightarrow> q \<le> q' + 1 \<Longrightarrow> r' \<le> r \<Longrightarrow>
     365 * (y - 1 - 1970) + p' - q' + r' + 364 \<le> 365 * (y - 1970) + p - q + (r::int)"
  by simp

lemma DayFromYear_pred: "DayFromYear (y - 1) + 364 \<le> DayFromYear y"
proof -
  have a: "(y - 1 - 1969) div 4 \<le> (y - 1969) div 4" by (rule zdiv_mono1) simp_all
  have b: "(y - 1901) div 100 \<le> (y - 1 - 1901) div 100 + 1" by linarith
  have c: "(y - 1 - 1601) div 400 \<le> (y - 1601) div 400" by (rule zdiv_mono1) simp_all
  show ?thesis unfolding DayFromYear_def by (rule year_step_arith [OF a b c])
qed

lemma MonthFromTime_range: "MonthFromTime t \<in> {0, 1, 2, 3, 4, 5, 6, 7, 8, 9, 10, 11}"
  by (simp add: MonthFromTime_def Let_def)

lemma month_gap:
  assumes "m \<in> {0, 1, 2, 3, 4, 5, 6, 7, 8, 9, 10, 11}"
  shows "MakeDay y (m - CACHE_DURATION_MONTHS) d + 3 \<le> MakeDay y m d"
proof -
  have y0: "DayFromYear (y - 1) + 364 \<le> DayFromYear y" by (rule DayFromYear_pred)
  from assms show ?thesis
    using y0 by (elim insertE emptyE) (simp_all add: MakeDay_def monthStart_def CACHE_DURATION_MONTHS_def Let_def)
qed

lemma MakeDay_roundtrip:
  "MakeDay (YearFromTime t) (MonthFromTime t) (DateFromTime t) = Day t"
proof -
  have "MonthFromTime t div 12 = 0" "MonthFromTime t mod 12 = MonthFromTime t"
    using MonthFromTime_range [of t] by (elim insertE emptyE; simp)+
  then show ?thesis
    by (simp add: MakeDay_def DateFromTime_def DayWithinYear_def InLeapYear_def Let_def)
qed

lemma threeMonthsAgo_before:
  assumes "tz_sane e"
  shows "threeMonthsAgo e now < now"
proof -
  define t where "t = LocalTime e now"
  define c where "c = MakeDay (YearFromTime t) (MonthFromTime t - CACHE_DURATION_MONTHS) (DateFromTime t)"
  have "c + 3 \<le> MakeDay (YearFromTime t) (MonthFromTime t) (DateFromTime t)"
    unfolding c_def by (rule month_gap [OF MonthFromTime_range])
  then have c: "c + 3 \<le> Day t" by (simp add: MakeDay_roundtrip)
  have t: "t = Day t * msPerDay + TimeWithinDay t"
    by (simp add: Day_def TimeWithinDay_def)
  have "MakeDate c (TimeWithinDay t) + 3 * msPerDay \<le> t"
  proof -
    have "(c + 3) * msPerDay \<le> Day t * msPerDay"
      using c by (simp add: msPerDay_def)
    then show ?thesis using t by (simp add: MakeDate_def algebra_simps)
  qed
  moreover have "\<bar>LocalTZA e now True\<bar> \<le> msPerDay"
    "\<bar>LocalTZA e (MakeDate c (TimeWithinDay t)) False\<bar> \<le> msPerDay"
    using assms by (simp_all add: tz_sane_def)
  moreover have "0 < msPerDay" by (simp add: msPerDay_def)
  ultimately have "UTC e (MakeDate c (TimeWithinDay t)) < now"
    unfolding UTC_def t_def LocalTime_def by linarith
  then show ?thesis
    by (simp add: threeMonthsAgo_def setMonth_def getMonth_def Let_def t_def c_def)
qed

subsection \<open>The three months before an instant span 89 to 92 days\<close>

lemma div_step:
  fixes x k :: int
  assumes "1 < k"
  shows "(x + 1) div k = x div k + (if k dvd (x + 1) then 1 else 0)"
proof -
  define r where "r = x mod k"
  have r: "0 \<le> r" "r < k" using assms by (simp_all add: r_def)
  have x: "x = k * (x div k) + r" by (simp add: r_def)
  show ?thesis
  proof (cases "r + 1 = k")
    case True
    with x have e: "x + 1 = k * (x div k + 1)" by (simp add: algebra_simps)
    have "(x + 1) div k = x div k + 1"
      unfolding e using assms by simp
    moreover have "k dvd (x + 1)" unfolding e by simp
    ultimately show ?thesis by simp
  next
    case False
    with r have r1: "0 \<le> r + 1" "r + 1 < k" by simp_all
    from x have e: "x + 1 = k * (x div k) + (r + 1)" by simp
    have d: "(x + 1) div k = x div k" by (rule int_div_pos_eq [OF e r1])
    have "(x + 1) mod k = r + 1" by (rule int_mod_pos_eq [OF e r1])
    then have "\<not> k dvd (x + 1)" using r by (simp add: dvd_eq_mod_eq_0)
    with d show ?thesis by simp
  qed
qed

lemma dvd_shift: "k dvd c \<Longrightarrow> (k dvd (y - c)) = (k dvd (y::int))"
  by (simp add: dvd_diff_left_iff)

lemma DaysInYear_cases: "DaysInYear y = 365 \<or> DaysInYear y = 366"
  by (simp add: DaysInYear_def)

lemma DaysInYear_dvd:
  "DaysInYear y = (if \<not> 4 dvd y then 365 else if \<not> 100 dvd y then 366
                   else if \<not> 400 dvd y then 365 else 366)"
  by (simp add: DaysInYear_def dvd_eq_mod_eq_0)

lemma DayFromYear_step: "DayFromYear (y + 1) = DayFromYear y + DaysInYear y"
proof -
  have a: "(y + 1 - 1969) div 4 = (y - 1969) div 4 + (if 4 dvd y then 1 else 0)"
    using div_step [of 4 "y - 1969"] dvd_shift [of 4 1968 y] by simp
  have b: "(y + 1 - 1901) div 100 = (y - 1901) div 100 + (if 100 dvd y then 1 else 0)"
    using div_step [of 100 "y - 1901"] dvd_shift [of 100 1900 y] by simp
  have c: "(y + 1 - 1601) div 400 = (y - 1601) div 400 + (if 400 dvd y then 1 else 0)"
    using div_step [of 400 "y - 1601"] dvd_shift [of 400 1600 y] by simp
  have m: "400 dvd y \<Longrightarrow> 100 dvd y" "100 dvd y \<Longrightarrow> 4 dvd y"
    by (erule dvd_trans [rotated], simp)+
  show ?thesis
    unfolding DayFromYear_def DaysInYear_dvd a b c using m by auto
qed

lemma month_span:
  assumes "m \<in> {0, 1, 2, 3, 4, 5, 6, 7, 8, 9, 10, 11}"
  shows "MakeDay y (m - CACHE_DURATION_MONTHS) d + 89 \<le> MakeDay y m d
         \<and> MakeDay y m d \<le> MakeDay y (m - CACHE_DURATION_MONTHS) d + 92"
proof -
  have y0: "DayFromYear y = DayFromYear (y - 1) + DaysInYear (y - 1)"
    using DayFromYear_step [of "y - 1"] by simp
  have c: "DaysInYear y = 365 \<or> DaysInYear y = 366"
    "DaysInYear (y - 1) = 365 \<or> DaysInYear (y - 1) = 366"
    by (rule DaysInYear_cases)+
  from assms show ?thesis
    using y0 c
    by (elim insertE emptyE disjE)
       (simp_all add: MakeDay_def monthStart_def CACHE_DURATION_MONTHS_def Let_def)
qed

lemma threeMonthsAgo_decomp:
  "\<exists>k c. 89 \<le> k \<and> k \<le> 92
     \<and> now - threeMonthsAgo e now
         = k * msPerDay + LocalTZA e c False - LocalTZA e now True"
proof -
  define t where "t = LocalTime e now"
  define c where "c = MakeDay (YearFromTime t) (MonthFromTime t - CACHE_DURATION_MONTHS) (DateFromTime t)"
  define k where "k = Day t - c"
  have "c + 89 \<le> MakeDay (YearFromTime t) (MonthFromTime t) (DateFromTime t)
      \<and> MakeDay (YearFromTime t) (MonthFromTime t) (DateFromTime t) \<le> c + 92"
    unfolding c_def by (rule month_span [OF MonthFromTime_range])
  then have k: "89 \<le> k" "k \<le> 92" by (simp_all add: MakeDay_roundtrip k_def)
  have tt: "t = Day t * msPerDay + TimeWithinDay t"
    by (simp add: Day_def TimeWithinDay_def)
  have "threeMonthsAgo e now = UTC e (MakeDate c (TimeWithinDay t))"
    by (simp add: threeMonthsAgo_def setMonth_def getMonth_def Let_def t_def c_def)
  then have "now - threeMonthsAgo e now
      = (t - MakeDate c (TimeWithinDay t))
        + LocalTZA e (MakeDate c (TimeWithinDay t)) False - LocalTZA e now True"
    by (simp add: UTC_def t_def LocalTime_def)
  moreover have "t - MakeDate c (TimeWithinDay t) = k * msPerDay"
    using tt by (simp add: MakeDate_def k_def algebra_simps)
  ultimately show ?thesis using k by auto
qed

lemma threeMonthsAgo_span:
  assumes "fixedOffset e"
  shows "89 * msPerDay \<le> now - threeMonthsAgo e now
         \<and> now - threeMonthsAgo e now \<le> 92 * msPerDay
         \<and> (now - threeMonthsAgo e now) mod msPerDay = 0"
proof -
  obtain k c where k: "89 \<le> k" "k \<le> 92"
    and e: "now - threeMonthsAgo e now = k * msPerDay + LocalTZA e c False - LocalTZA e now True"
    using threeMonthsAgo_decomp [of now e] by blast
  have "LocalTZA e c False = LocalTZA e now True"
    using assms by (simp add: fixedOffset_def)
  with e have e': "now - threeMonthsAgo e now = k * msPerDay" by simp
  have pos: "0 < msPerDay" by (simp add: msPerDay_def)
  show ?thesis
    unfolding e' using k pos by (simp add: mult_right_mono)
qed

lemma threeMonthsAgo_span_sane:
  assumes "tz_sane e"
  shows "87 * msPerDay \<le> now - threeMonthsAgo e now
         \<and> now - threeMonthsAgo e now \<le> 94 * msPerDay"
proof -
  obtain k c where k: "89 \<le> k" "k \<le> 92"
    and e: "now - threeMonthsAgo e now = k * msPerDay + LocalTZA e c False - LocalTZA e now True"
    using threeMonthsAgo_decomp [of now e] by blast
  have z: "\<bar>LocalTZA e c False\<bar> \<le> msPerDay" "\<bar>LocalTZA e now True\<bar> \<le> msPerDay"
    using assms by (simp_all add: tz_sane_def)
  have pos: "0 < msPerDay" by (simp add: msPerDay_def)
  have "89 * msPerDay \<le> k * msPerDay" "k * msPerDay \<le> 92 * msPerDay"
    using k pos by (simp_all add: mult_right_mono)
  with z show ?thesis unfolding e by linarith
qed

subsection \<open>Joining a directory and a name\<close>

lemma split_on_nonempty: "split_on c xs \<noteq> []"
  by (induction xs) (auto split: list.splits)

lemma split_on_no_sep: "c \<notin> set xs \<Longrightarrow> split_on c xs = [xs]"
  by (induction xs) auto

lemma split_on_append:
  "split_on c (xs @ c # ys) = split_on c xs @ split_on c ys"
proof (induction xs)
  case Nil
  then show ?case by simp
next
  case (Cons x xs)
  then show ?case
    using split_on_nonempty [of c xs] by (cases "split_on c xs") auto
qed

lemma join_with_snoc:
  "ss \<noteq> [] \<Longrightarrow> join_with sep (ss @ [n]) = join_with sep ss @ sep @ n"
  by (induction sep ss rule: join_with.induct) auto

lemma normalizeSegments_snoc:
  "validName n \<Longrightarrow> normalizeSegments b (segs @ [n]) = normalizeSegments b segs @ [n]"
  by (auto simp: normalizeSegments_def normalizeStep_def validName_def)

lemma normalizePath_child:
  assumes "wf_dir d" "validName n"
  shows "normalizePath (d @ ''/'' @ n) = d @ ''/'' @ n"
proof -
  define R where "R = normalizeSegments False (split_on CHR ''/'' d)"
  from assms(1) have d: "d \<noteq> []" "hd d = CHR ''/''" "last d \<noteq> CHR ''/''" "normalizePath d = d"
    by (simp_all add: wf_dir_def)
  from assms(2) have n: "n \<noteq> []" "CHR ''/'' \<notin> set n"
    by (simp_all add: validName_def)
  have nd: "normalizePath d = (if join_with ''/'' R = [] then ''/'' else ''/'' @ join_with ''/'' R)"
    using d(1,2,3) by (simp add: normalizePath_def normalizeString_def R_def Let_def)
  have R: "join_with ''/'' R \<noteq> []"
  proof
    assume "join_with ''/'' R = []"
    with nd d(4) have "d = ''/''" by simp
    with d(3) show False by simp
  qed
  then have Rne: "R \<noteq> []" by auto
  from nd R d(4) have dR: "d = ''/'' @ join_with ''/'' R" by simp
  have sp: "split_on CHR ''/'' (d @ ''/'' @ n) = split_on CHR ''/'' d @ [n]"
    using split_on_append [of "CHR ''/''" d n] n by (simp add: split_on_no_sep)
  have ns: "normalizeString (d @ ''/'' @ n) False = join_with ''/'' R @ ''/'' @ n"
    unfolding normalizeString_def sp
    by (simp add: normalizeSegments_snoc [OF assms(2)] join_with_snoc [OF Rne] R_def [symmetric])
  have "last n \<in> set n" using n(1) by simp
  with n(2) have "last n \<noteq> CHR ''/''" by metis
  then have l: "last (d @ ''/'' @ n) \<noteq> CHR ''/''" using n(1) by simp
  have h: "hd (d @ ''/'' @ n) = CHR ''/''" using d by simp
  have "normalizePath (d @ ''/'' @ n) = ''/'' @ join_with ''/'' R @ ''/'' @ n"
    using l h ns d(1) unfolding normalizePath_def Let_def by simp
  with dR show ?thesis by simp
qed

lemma join_child:
  assumes "wf_dir d" "validName n"
  shows "join [d, n] = d @ ''/'' @ n"
  using assms normalizePath_child [OF assms]
  by (simp add: join_def wf_dir_def validName_def)

lemma wf_dir_child:
  assumes "wf_dir d" "validName n"
  shows "wf_dir (d @ ''/'' @ n)"
proof -
  from assms(2) have "n \<noteq> []" "last n \<in> set n" "CHR ''/'' \<notin> set n"
    by (auto simp: validName_def)
  then have "last n \<noteq> CHR ''/''" by metis
  then show ?thesis
    using assms normalizePath_child [OF assms] \<open>n \<noteq> []\<close>
    by (simp add: wf_dir_def)
qed

lemma cacheDir_wf:
  assumes "wf_dir (dirname e)"
  shows "cacheDir e = dirname e @ ''/cache''" "wf_dir (cacheDir e)"
proof -
  have v: "validName ''cache''" by (simp add: validName_def)
  show c: "cacheDir e = dirname e @ ''/cache''"
    using join_child [OF assms v] by (simp add: cacheDir_def)
  show "wf_dir (cacheDir e)"
    using wf_dir_child [OF assms v] c by simp
qed

lemma childName_Some:
  "childName dir p = Some n \<longleftrightarrow> p = dir @ ''/'' @ n \<and> validName n"
proof
  assume "childName dir p = Some n"
  then have a: "take (length dir + 1) p = dir @ ''/''" and b: "validName n"
    and c: "n = drop (length dir + 1) p"
    by (auto simp: childName_def split: if_splits)
  have "p = take (length dir + 1) p @ drop (length dir + 1) p" by simp
  with a c have "p = (dir @ ''/'') @ n" by metis
  with b show "p = dir @ ''/'' @ n \<and> validName n" by simp
next
  assume "p = dir @ ''/'' @ n \<and> validName n"
  then show "childName dir p = Some n" by (simp add: childName_def)
qed


subsection \<open>Enumeration and sweep, entry by entry\<close>

lemma child_no_trailing:
  assumes "validName n"
  shows "\<not> hasTrailingSlash (d @ ''/'' @ n)"
proof -
  from assms have "n \<noteq> []" "last n \<in> set n" "CHR ''/'' \<notin> set n"
    by (auto simp: validName_def)
  then have "last n \<noteq> CHR ''/''" by metis
  then show ?thesis using \<open>n \<noteq> []\<close> by (simp add: hasTrailingSlash_def)
qed

lemma nodeAt_entry:
  assumes "wf_fs s" "(p, f) \<in> set (entries s)" "\<not> hasTrailingSlash p"
  shows "nodeAt s p = (if statFails f then Inl EACCES else Inr f)"
proof -
  from assms(1,2) have "map_of (entries s) p = Some f"
    by (simp add: wf_fs_def)
  then show ?thesis using assms(3) by (simp add: nodeAt_def stripTrailing_def)
qed

lemma stat_entry:
  assumes "wf_fs s" "(p, f) \<in> set (entries s)" "\<not> hasTrailingSlash p"
  shows "stat s p = (if statFails f then Inl EACCES
                     else Inr \<lparr> st_size = length (content f), st_mtime = modified f \<rparr>)"
  by (simp add: stat_def nodeAt_entry [OF assms])

lemma expiredLoop_char:
  assumes "wf_dir (dirname e)" "wf_fs s" "set es \<subseteq> set (entries s)"
  shows "expiredLoop e s now (threeMonthsAgo e now)
           (List.map_filter (childName (cacheDir e)) (map fst es))
         = map (expiredRecord e now) (filter (expiredEntry e now) es)"
  using assms(3)
proof (induction es)
  case Nil
  then show ?case by (simp add: List.map_filter_simps)
next
  case (Cons en es)
  obtain p f where en: "en = (p, f)" by (cases en)
  from Cons.prems en have mem: "(p, f) \<in> set (entries s)" and sub: "set es \<subseteq> set (entries s)"
    by auto
  note IH = Cons.IH [OF sub]
  show ?case
  proof (cases "childName (cacheDir e) p")
    case None
    then show ?thesis using IH en by (simp add: List.map_filter_simps expiredEntry_def)
  next
    case (Some n)
    then have p: "p = cacheDir e @ ''/'' @ n" and n: "validName n"
      by (simp_all add: childName_Some)
    have j: "join [cacheDir e, n] = p"
      using join_child [OF cacheDir_wf(2) [OF assms(1)] n] p by simp
    have nm: "drop (length (cacheDir e) + 1) p = n" using p by simp
    have nt: "\<not> hasTrailingSlash p" unfolding p by (rule child_no_trailing [OF n])
    show ?thesis
      using IH en Some j nm stat_entry [OF assms(2) mem nt]
      by (simp add: List.map_filter_simps expiredEntry_def expiredRecord_def Let_def)
  qed
qed

lemma getExpiredCacheFiles_char:
  assumes "wf_dir (dirname e)" "wf_fs s" "\<not> readdirFails s (cacheDir e)"
  shows "getExpiredCacheFiles e s now
         = map (expiredRecord e now) (filter (expiredEntry e now) (entries s))"
  using assms(3) expiredLoop_char [OF assms(1,2) subset_refl]
  by (simp add: getExpiredCacheFiles_def readdir_def)

lemma unlinkLoop_char:
  assumes "wf_fs s" "set es \<subseteq> set (entries s)" "distinct (map fst es)"
  shows "unlinkLoop s (map (expiredRecord e now) es) dc fr
         = (s\<lparr> entries := filter (\<lambda>en. en \<notin> set (filter (\<lambda>en. canUnlink (snd en)) es))
                                   (entries s) \<rparr>,
            dc + length (filter (\<lambda>en. canUnlink (snd en)) es),
            fr + sum_list (map (\<lambda>en. length (content (snd en)))
                               (filter (\<lambda>en. canUnlink (snd en)) es)))"
  using assms
proof (induction es arbitrary: s dc fr)
  case Nil
  then show ?case by simp
next
  case (Cons en es)
  obtain p f where en: "en = (p, f)" by (cases en)
  from Cons.prems en have mem: "(p, f) \<in> set (entries s)" and sub: "set es \<subseteq> set (entries s)"
    and dist: "distinct (map fst es)" and fresh: "p \<notin> fst ` set es"
    by auto
  from Cons.prems(1) mem have look: "map_of (entries s) p = Some f"
    by (simp add: wf_fs_def)
  show ?case
  proof (cases "canUnlink f")
    case False
    then show ?thesis
      using Cons.IH [OF Cons.prems(1) sub dist] en look
      by (simp add: unlink_def expiredRecord_def)
  next
    case True
    define s' where "s' = s\<lparr> entries := filter (\<lambda>(k, _). k \<noteq> p) (entries s) \<rparr>"
    have wf': "wf_fs s'"
      using Cons.prems(1) by (simp add: s'_def wf_fs_def distinct_map_filter)
    have sub': "set es \<subseteq> set (entries s')"
      using sub fresh by (force simp: s'_def)
    have key: "\<And>x. x \<in> set (entries s) \<Longrightarrow> (fst x \<noteq> p) = (x \<noteq> (p, f))"
    proof -
      fix x assume x: "x \<in> set (entries s)"
      obtain k g where xk: "x = (k, g)" by (cases x)
      from x xk Cons.prems(1) have "map_of (entries s) k = Some g" by (simp add: wf_fs_def)
      with look xk show "(fst x \<noteq> p) = (x \<noteq> (p, f))" by auto
    qed
    have ent: "filter (\<lambda>en. en \<notin> set (filter (\<lambda>en. canUnlink (snd en)) es)) (entries s')
        = filter (\<lambda>en. en \<notin> set (filter (\<lambda>en. canUnlink (snd en)) ((p, f) # es))) (entries s)"
    proof -
      have "filter (\<lambda>en. en \<notin> set (filter (\<lambda>en. canUnlink (snd en)) es)) (entries s')
          = filter (\<lambda>x. fst x \<noteq> p \<and> x \<notin> set (filter (\<lambda>en. canUnlink (snd en)) es)) (entries s)"
        by (simp add: s'_def case_prod_beta' conj_commute)
      also have "\<dots> = filter (\<lambda>en. en \<notin> set (filter (\<lambda>en. canUnlink (snd en)) ((p, f) # es))) (entries s)"
      proof (rule filter_cong [OF refl])
        fix x assume x: "x \<in> set (entries s)"
        show "(fst x \<noteq> p \<and> x \<notin> set (filter (\<lambda>en. canUnlink (snd en)) es))
            = (x \<notin> set (filter (\<lambda>en. canUnlink (snd en)) ((p, f) # es)))"
          unfolding key [OF x] using True by simp
      qed
      finally show ?thesis .
    qed
    have "unlink s p = Inr s'" using look True by (simp add: unlink_def s'_def)
    then show ?thesis
      using Cons.IH [OF wf' sub' dist, of "dc + 1" "fr + length (content f)"] en True ent
      by (simp add: expiredRecord_def s'_def)
  qed
qed

lemma cleanup_char:
  assumes "wf_dir (dirname e)" "wf_fs s" "\<not> readdirFails s (cacheDir e)"
  shows "cleanupExpiredCacheFiles e s now
         = (s\<lparr> entries := filter (\<lambda>en. \<not> removable e now en) (entries s) \<rparr>,
            \<lparr> deletedCount = length (filter (removable e now) (entries s)),
              freedSpace = sum_list (map (\<lambda>en. length (content (snd en)))
                                         (filter (removable e now) (entries s))) \<rparr>)"
proof -
  let ?ex = "filter (expiredEntry e now) (entries s)"
  have g: "getExpiredCacheFiles e s now = map (expiredRecord e now) ?ex"
    by (rule getExpiredCacheFiles_char [OF assms])
  have d: "distinct (map fst ?ex)"
    using assms(2) by (simp add: wf_fs_def distinct_map_filter)
  have f: "filter (\<lambda>en. canUnlink (snd en)) ?ex = filter (removable e now) (entries s)"
    by (auto simp: removable_def intro!: filter_cong)
  have u: "unlinkLoop s (map (expiredRecord e now) ?ex) 0 0
      = (s\<lparr> entries := filter (\<lambda>en. \<not> removable e now en) (entries s) \<rparr>,
         length (filter (removable e now) (entries s)),
         sum_list (map (\<lambda>en. length (content (snd en))) (filter (removable e now) (entries s))))"
  proof -
    have e1: "filter (\<lambda>en. en \<notin> set (filter (removable e now) (entries s))) (entries s)
        = filter (\<lambda>en. \<not> removable e now en) (entries s)"
      by (rule filter_cong) auto
    have "set ?ex \<subseteq> set (entries s)" by auto
    from unlinkLoop_char [OF assms(2) this d, of e now 0 0] show ?thesis
      unfolding f e1 by simp
  qed
  show ?thesis
  proof (cases "?ex = []")
    case True
    then have "filter (removable e now) (entries s) = []"
      using f by (metis filter.simps(1))
    then have "filter (\<lambda>en. \<not> removable e now en) (entries s) = entries s"
      by (simp add: filter_empty_conv filter_id_conv)
    with True g \<open>filter (removable e now) (entries s) = []\<close> show ?thesis
      by (simp add: cleanupExpiredCacheFiles_def)
  next
    case False
    with g u show ?thesis by (simp add: cleanupExpiredCacheFiles_def Let_def)
  qed
qed

subsection \<open>Evaluation at the concrete instances\<close>

lemmas fs_eval = stat_def nodeAt_def stripTrailing_def hasTrailingSlash_def canUnlink_def
  dirnamePath_def hostDirs_def dirNode_def
  existsSync_def readdir_def childName_def validName_def unlink_def
  writeFileSync_def isCacheValid_def getExpiredCacheFiles_def cleanupExpiredCacheFiles_def
  getCacheStats_def List.map_filter_simps Let_def

lemmas send_eval = sendFile_def sendStream_def upPath_def dotfileIgnored_def containsDotFile_def
  normalizePath_def normalizeString_def normalizeSegments_def normalizeStep_def

lemma join_env0 [simp]:
  "join [''/app/cache'', ''old.png''] = ''/app/cache/old.png''"
  "join [''/app/cache'', ''new.png''] = ''/app/cache/new.png''"
  "join [''/app/cache'', ''stuck.png''] = ''/app/cache/stuck.png''"
  "join [''/app/cache'', ''ghost.png''] = ''/app/cache/ghost.png''"
  by (simp_all add: path_eval)

lemma threeMonthsAgo_now0: "threeMonthsAgo env0 now0 = 1785751200000"
  by code_simp

lemma cacheDir_env0: "cacheDir env0 = ''/app/cache''"
  by (simp add: path_eval)

lemma expiredLoop_names:
  "map ef_name (expiredLoop e s now (threeMonthsAgo e now) files)
   = filter (\<lambda>file. existsSync s (join [cacheDir e, file])
                    \<and> isCacheValid e s now (join [cacheDir e, file]) = Inr False) files"
  by (induction files)
     (auto simp: Let_def existsSync_def isCacheValid_def split: sum.splits)

lemma expiredLoop_fields:
  "x \<in> set (expiredLoop e s now cutoff files) \<Longrightarrow>
     ef_path x = join [cacheDir e, ef_name x]
     \<and> stat s (ef_path x) = Inr \<lparr> st_size = ef_size x, st_mtime = now - ef_age x \<rparr>"
  by (induction files) (auto simp: Let_def split: sum.splits if_splits)

subsection \<open>The validity test, unfolded\<close>

lemma isCacheValid_True_iff:
  "isCacheValid e s now p = Inr True \<longleftrightarrow>
     (\<exists>st. stat s p = Inr st \<and> threeMonthsAgo e now < st_mtime st)"
  by (auto simp: isCacheValid_def existsSync_def split: sum.splits)

lemma isCacheValid_False_iff:
  "isCacheValid e s now p = Inr False \<longleftrightarrow>
     (case stat s p of Inl _ \<Rightarrow> True | Inr st \<Rightarrow> st_mtime st \<le> threeMonthsAgo e now)"
  by (auto simp: isCacheValid_def existsSync_def split: sum.splits)

lemma getCacheFilePath_env0 [simp]:
  "getCacheFilePath env0 ''old.png'' = ''/app/cache/old.png''"
  "getCacheFilePath env0 ''new.png'' = ''/app/cache/new.png''"
  "getCacheFilePath env0 ''fresh.png'' = ''/app/cache/fresh.png''"
  by (simp_all add: getCacheFilePath_def cacheDir_env0) (simp_all add: path_eval)

subsection \<open>The size test in bytes\<close>





lemma join_a_png: "join [''/app/cache'', ''a.png''] = ''/app/cache/a.png''"
  by (simp add: path_eval)

lemma write_a_png:
  "writeFileSync fsEmpty now0 ''/app/cache/a.png'' ''PNGDATA''
   = Inr (fsEmpty\<lparr> entries := hostDirs @ [(''/app/cache/a.png'',
            \<lparr> content = ''PNGDATA'', modified = now0, isDirectory = False,
              statFails = False, unlinkFails = False \<rparr>)] \<rparr>)"
  by (simp add: fs_eval fsEmpty_def)


subsection \<open>The concrete instances are well formed\<close>

lemma wf_dir_env0: "wf_dir (dirname env0)"
  by (simp add: wf_dir_def path_eval)

lemma wf_fs0: "wf_fs fs0"
  by (simp add: wf_fs_def fs0_def hostDirs_def)

lemma sweep_fs0:
  "cleanupExpiredCacheFiles env0 fs0 now0
   = (fs0\<lparr> entries := tl (entries fs0) \<rparr>, \<lparr> deletedCount = 1, freedSpace = 3 \<rparr>)"
  by (simp add: fs_eval fs0_def cacheDir_env0 threeMonthsAgo_now0)

lemma childName_fs0 [simp]:
  "childName ''/app/cache'' ''/app/cache/old.png'' = Some ''old.png''"
  "childName ''/app/cache'' ''/app/cache/new.png'' = Some ''new.png''"
  "childName ''/app/cache'' ''/app/cache/stuck.png'' = Some ''stuck.png''"
  "childName ''/app/cache'' ''/app/cache/ghost.png'' = Some ''ghost.png''"
  by (simp_all add: childName_def validName_def)

subsection \<open>Writing a file, and what a sweep keeps\<close>

lemma put_file_keys:
  "map fst (put_file p buf now es)
   = (if p \<in> set (map fst es) then map fst es else map fst es @ [p])"
proof (induction es)
  case Nil
  then show ?case by simp
next
  case (Cons en es)
  obtain k f where en: "en = (k, f)" by (cases en)
  show ?case using Cons.IH by (simp add: en)
qed

lemma put_file_distinct:
  "distinct (map fst es) \<Longrightarrow> distinct (map fst (put_file p buf now es))"
  unfolding put_file_keys by simp

lemma map_of_put_file_new:
  "map_of es p = None \<Longrightarrow>
   map_of (put_file p buf now es) p
     = Some \<lparr> content = buf, modified = now, isDirectory = False, statFails = False,
              unlinkFails = False \<rparr>"
  by (induction es) (auto split: if_splits)

lemma map_of_filter_keep:
  assumes "distinct (map fst es)" "map_of es p = Some f" "P (p, f)"
  shows "map_of (filter P es) p = Some f"
proof -
  from assms(2) have "(p, f) \<in> set es" by (rule map_of_SomeD)
  with assms(3) have "(p, f) \<in> set (filter P es)" by simp
  moreover have "distinct (map fst (filter P es))"
    using assms(1) by (rule distinct_map_filter)
  ultimately show ?thesis by simp
qed

lemma cleanup_keeps_valid:
  assumes "wf_dir (dirname e)" "wf_fs s" "map_of (entries s) p = Some f"
    and "threeMonthsAgo e now < modified f"
  shows "map_of (entries (fst (cleanupExpiredCacheFiles e s now))) p = Some f"
proof (cases "readdirFails s (cacheDir e)")
  case True
  then have "getExpiredCacheFiles e s now = []"
    by (simp add: getExpiredCacheFiles_def readdir_def)
  then show ?thesis using assms(3) by (simp add: cleanupExpiredCacheFiles_def)
next
  case False
  have "\<not> removable e now (p, f)"
    using assms(4) by (simp add: removable_def expiredEntry_def)
  then show ?thesis
    using map_of_filter_keep [of "entries s" p f "\<lambda>en. \<not> removable e now en"] assms(2,3)
    by (simp add: cleanup_char [OF assms(1,2) False] wf_fs_def)
qed

lemma tz_sane_env0: "tz_sane env0"
  by (simp add: tz_sane_def env0_def msPerDay_def)

lemma wf_fsEmpty: "wf_fs fsEmpty"
  by (simp add: wf_fs_def fsEmpty_def hostDirs_def)

subsection \<open>Ordinary keys stay inside the cache directory\<close>

lemma getCacheFilePath_valid_name:
  assumes "wf_dir (dirname e)" "validName key"
  shows "getCacheFilePath e key = cacheDir e @ ''/'' @ key"
    and "inside_dir (cacheDir e) (getCacheFilePath e key)"
proof -
  show p: "getCacheFilePath e key = cacheDir e @ ''/'' @ key"
    using join_child [OF cacheDir_wf(2) [OF assms(1)] assms(2)]
    by (simp add: getCacheFilePath_def)
  from assms(2) have "key \<noteq> []" by (simp add: validName_def)
  then show "inside_dir (cacheDir e) (getCacheFilePath e key)"
    unfolding p by (cases key) (simp_all add: inside_dir_def)
qed

subsection \<open>The hit branch\<close>

lemma proxy_hit:
  assumes "isCacheValid e s now (getCacheFilePath e key) = Inr True"
  shows "proxy e fetch s now key = (s, [Respond (hitAnswer s (getCacheFilePath e key))])"
  using assms by (simp add: proxy_def Let_def hitAnswer_def split: sum.splits)

lemma nodeAt_lookup:
  assumes "\<not> hasTrailingSlash p"
  shows "nodeAt s p = (case map_of (entries s) p of
                         None \<Rightarrow> Inl ENOENT
                       | Some f \<Rightarrow> if statFails f then Inl EACCES else Inr f)"
  using assms by (simp add: nodeAt_def stripTrailing_def split: option.splits)

lemma fixedOffset_env0: "fixedOffset env0"
  by (simp add: fixedOffset_def env0_def)

lemma threeMonthsAgo_nowMay: "threeMonthsAgo env0 nowMay = 1772496000000"
  by code_simp

lemma getCacheFilePath_gitignore:
  "getCacheFilePath env0 ''.gitignore'' = ''/app/cache/.gitignore''"
  by (simp add: getCacheFilePath_def cacheDir_env0) (simp add: path_eval)

lemma join_gitignore: "join [''/app/cache'', ''.gitignore''] = ''/app/cache/.gitignore''"
  by (simp add: path_eval)

lemma contentType_gitignore: "contentTypeOf ''.gitignore'' = ''application/octet-stream''"
  by (simp add: contentTypeOf_def toLowerCase_def extname_def lastSegment_def Let_def)

section \<open>Results\<close>

text \<open>
  C1 (the key-to-location mapping keeps every location inside the cache directory).
  The mapping is \<^verbatim>\<open>path.join(cacheDir, filename)\<close> and nothing else: the key
  \<^verbatim>\<open>../index.js\<close> (which a request \<^verbatim>\<open>/proxy/..%2Findex.js\<close> delivers as the route
  parameter) is mapped to \<^verbatim>\<open>/app/index.js\<close>, the service's own script, outside
  \<^verbatim>\<open>/app/cache\<close>; and since that file was modified within the last three months, the
  route answers the request with it.
\<close>

theorem getCacheFilePath_escapes:
  "cacheDir env0 = ''/app/cache'' \<and>
   getCacheFilePath env0 ''../index.js'' = ''/app/index.js'' \<and>
   \<not> inside_dir (cacheDir env0) (getCacheFilePath env0 ''../index.js'') \<and>
   proxy env0 net_down fsScript now0 ''../index.js''
     = (fsScript, [Respond (SendFile ''/app/index.js'')])"
proof -
  have p: "getCacheFilePath env0 ''../index.js'' = ''/app/index.js''"
    by (simp add: path_eval)
  have v: "isCacheValid env0 fsScript now0 ''/app/index.js'' = Inr True"
    by (simp add: fs_eval fsScript_def threeMonthsAgo_now0)
  have a: "sendFile fsScript ''/app/index.js'' = Inr (SendFile ''/app/index.js'')"
    by (simp add: send_eval fs_eval fsScript_def)
  show ?thesis
    by (simp add: p v a proxy_def cacheDir_env0 inside_dir_def)
qed

text \<open>
  C2 (validity is ``age strictly below the expiry threshold''), as stated, fails: the code
  has no one duration as threshold. A file of age exactly 90 days is valid on 2026-11-03,
  when the three calendar months before the instant span 92 days, and expired on
  2026-05-31, when they span 89 days.
\<close>

theorem expiry_threshold_varies:
  "stat (fsAged now0) ''/app/cache/a.png''
     = Inr \<lparr> st_size = 3, st_mtime = now0 - 90 * msPerDay \<rparr>
   \<and> isCacheValid env0 (fsAged now0) now0 ''/app/cache/a.png'' = Inr True
   \<and> stat (fsAged nowMay) ''/app/cache/a.png''
     = Inr \<lparr> st_size = 3, st_mtime = nowMay - 90 * msPerDay \<rparr>
   \<and> isCacheValid env0 (fsAged nowMay) nowMay ''/app/cache/a.png'' = Inr False"
  by (simp add: fs_eval fsAged_def threeMonthsAgo_now0 threeMonthsAgo_nowMay)
     (simp add: now0_def nowMay_def msPerDay_def)

text \<open>
  C2, amended. For a file whose metadata can be read, \<^verbatim>\<open>isCacheValid\<close> returns whether
  its age is strictly less than the span from the instant three calendar months ago to the
  current instant, so an age equal to that span is invalid. The span is not one duration:
  with a constant local time offset it is a whole number of days, at least 89 and at most
  92, depending on the date; with any local time offsets within a day it lies between 87
  and 94 days. For a readable cache directory, the names that
  \<^verbatim>\<open>getExpiredCacheFiles\<close> yields are exactly the listed names whose file can be read and
  fails \<^verbatim>\<open>isCacheValid\<close>, in listing order, and each record carries the path, size and
  age of its file.
\<close>

theorem isCacheValid_calendar_months:
  "(stat s p = Inr st \<longrightarrow>
      isCacheValid e s now p = Inr (now - st_mtime st < now - threeMonthsAgo e now))
   \<and> (fixedOffset e \<longrightarrow>
        89 * msPerDay \<le> now - threeMonthsAgo e now
        \<and> now - threeMonthsAgo e now \<le> 92 * msPerDay
        \<and> (now - threeMonthsAgo e now) mod msPerDay = 0)
   \<and> (tz_sane e \<longrightarrow>
        87 * msPerDay \<le> now - threeMonthsAgo e now
        \<and> now - threeMonthsAgo e now \<le> 94 * msPerDay)
   \<and> (readdir s (cacheDir e) = Inr files \<longrightarrow>
        map ef_name (getExpiredCacheFiles e s now)
          = filter (\<lambda>file. existsSync s (join [cacheDir e, file])
                           \<and> isCacheValid e s now (join [cacheDir e, file]) = Inr False) files
        \<and> (\<forall>x \<in> set (getExpiredCacheFiles e s now).
              ef_path x = join [cacheDir e, ef_name x]
              \<and> stat s (ef_path x) = Inr \<lparr> st_size = ef_size x, st_mtime = now - ef_age x \<rparr>))"
proof (intro conjI impI)
  assume "stat s p = Inr st"
  then show "isCacheValid e s now p = Inr (now - st_mtime st < now - threeMonthsAgo e now)"
    by (auto simp: isCacheValid_def existsSync_def)
next
  assume "fixedOffset e"
  then show "89 * msPerDay \<le> now - threeMonthsAgo e now"
    "now - threeMonthsAgo e now \<le> 92 * msPerDay"
    "(now - threeMonthsAgo e now) mod msPerDay = 0"
    using threeMonthsAgo_span [of e now] by simp_all
next
  assume "tz_sane e"
  then show "87 * msPerDay \<le> now - threeMonthsAgo e now"
    "now - threeMonthsAgo e now \<le> 94 * msPerDay"
    using threeMonthsAgo_span_sane [of e now] by simp_all
next
  assume r: "readdir s (cacheDir e) = Inr files"
  then show "map ef_name (getExpiredCacheFiles e s now)
      = filter (\<lambda>file. existsSync s (join [cacheDir e, file])
                       \<and> isCacheValid e s now (join [cacheDir e, file]) = Inr False) files"
    by (simp add: getExpiredCacheFiles_def expiredLoop_names)
  from r show "\<forall>x \<in> set (getExpiredCacheFiles e s now).
      ef_path x = join [cacheDir e, ef_name x]
      \<and> stat s (ef_path x) = Inr \<lparr> st_size = ef_size x, st_mtime = now - ef_age x \<rparr>"
    by (auto simp: getExpiredCacheFiles_def dest: expiredLoop_fields)
qed

theorem isCacheValid_calendar_months_witness:
  "stat fs0 ''/app/cache/old.png'' = Inr \<lparr> st_size = 3, st_mtime = 1785751200000 \<rparr>
   \<and> now0 - 1785751200000 = now0 - threeMonthsAgo env0 now0
   \<and> isCacheValid env0 fs0 now0 ''/app/cache/old.png'' = Inr False
   \<and> fixedOffset env0
   \<and> now0 - threeMonthsAgo env0 now0 = 92 * msPerDay
   \<and> readdir fs0 (cacheDir env0) = Inr [''old.png'', ''new.png'', ''stuck.png'', ''ghost.png'']
   \<and> map ef_name (getExpiredCacheFiles env0 fs0 now0) = [''old.png'', ''stuck.png'']"
  using isCacheValid_calendar_months [of fs0 "''/app/cache/old.png''"
      "\<lparr> st_size = 3, st_mtime = 1785751200000 \<rparr>" env0 now0
      "[''old.png'', ''new.png'', ''stuck.png'', ''ghost.png'']"]
  by (simp add: fs_eval fs0_def cacheDir_env0 threeMonthsAgo_now0 fixedOffset_env0)
     (simp add: now0_def msPerDay_def)

text \<open>
  C3 (a hit serves the stored blob and never reaches the remote source). No fetch is made
  on a hit, but the stored blob is not always served. On an empty cache the request for
  \<^verbatim>\<open>.gitignore\<close> is a miss: the bytes are fetched, stored and sent with
  \<^verbatim>\<open>res.send\<close>. The next request finds the stored entry valid and calls
  \<^verbatim>\<open>res.sendFile\<close> without options, which refuses a file whose name starts with a dot;
  the refusal goes to the error-handling middleware, and the request is answered with
  status 500 and no bytes.
\<close>

theorem cached_dotfile_not_served:
  "proxy env0 net_ok fsEmpty now0 ''.gitignore''
     = (fsDot,
        [RemoteFetch ''.gitignore'', CacheWrite ''/app/cache/.gitignore'',
         StatsRead \<lparr> totalFiles = 1, totalSize = 7, totalSizeMB = 7 / 1048576 \<rparr>,
         Respond (Send ''application/octet-stream'' ''PNGDATA'')])
   \<and> isCacheValid env0 fsDot now0 (getCacheFilePath env0 ''.gitignore'') = Inr True
   \<and> proxy env0 net_ok fsDot now0 ''.gitignore''
     = (fsDot, [Respond (Json 500 ''Internal server error'')])
   \<and> servedBytes fsDot (Json 500 ''Internal server error'') = None"
proof -
  have m: "isCacheValid env0 fsEmpty now0 ''/app/cache/.gitignore'' = Inr False"
    by (simp add: fs_eval fsEmpty_def)
  have f: "fetchFromGitHubRaw env0 net_ok ''.gitignore'' = Inr ''PNGDATA''"
    by (simp add: fetchFromGitHubRaw_def env0_def net_ok_def)
  have w: "writeFileSync fsEmpty now0 ''/app/cache/.gitignore'' ''PNGDATA'' = Inr fsDot"
    by (simp add: fs_eval fsEmpty_def fsDot_def)
  have st: "getCacheStats env0 fsDot
      = \<lparr> totalFiles = 1, totalSize = 7, totalSizeMB = 7 / 1048576 \<rparr>"
    by (simp add: fs_eval fsEmpty_def fsDot_def cacheDir_env0 join_gitignore)
  have b: "\<not> (7 / 1048576 > MAX_CACHE_SIZE_MB env0)"
    by (simp add: env0_def)
  have first: "proxy env0 net_ok fsEmpty now0 ''.gitignore''
     = (fsDot,
        [RemoteFetch ''.gitignore'', CacheWrite ''/app/cache/.gitignore'',
         StatsRead \<lparr> totalFiles = 1, totalSize = 7, totalSizeMB = 7 / 1048576 \<rparr>,
         Respond (Send ''application/octet-stream'' ''PNGDATA'')])"
    using b by (simp add: proxy_def Let_def getCacheFilePath_gitignore m f w st contentType_gitignore)
  have v: "isCacheValid env0 fsDot now0 ''/app/cache/.gitignore'' = Inr True"
    by (simp add: fs_eval fsEmpty_def fsDot_def threeMonthsAgo_now0) (simp add: now0_def)
  have a: "sendFile fsDot ''/app/cache/.gitignore'' = Inr (Json 500 ''Internal server error'')"
    by (simp add: send_eval internalError_def)
  have second: "proxy env0 net_ok fsDot now0 ''.gitignore''
     = (fsDot, [Respond (Json 500 ''Internal server error'')])"
    by (simp add: proxy_def Let_def getCacheFilePath_gitignore v a)
  show ?thesis
    using first second v by (simp add: getCacheFilePath_gitignore servedBytes_def)
qed

text \<open>
  C4 (a miss fetches once, and the next request is a hit), as stated, fails. On a host that
  refuses the write, the fetch succeeds, the request is answered with status 404, nothing
  is stored, and the next request for the same key fetches again. And the key \<^verbatim>\<open>.\<close>,
  for which nothing was ever cached, is mapped to the cache directory itself, which exists:
  the request takes the hit branch and makes no fetch at all.
\<close>

theorem write_failure_fetches_again:
  "map_of (entries fsReadOnly) (getCacheFilePath env0 ''a.png'') = None
   \<and> fetchFromGitHubRaw env0 net_ok ''a.png'' = Inr ''PNGDATA''
   \<and> proxy env0 net_ok fsReadOnly now0 ''a.png''
       = (fsReadOnly, [RemoteFetch ''a.png'', Respond (Json 404 ''File not found or fetch failed'')])
   \<and> fetchCalls (snd (proxy env0 net_ok (fst (proxy env0 net_ok fsReadOnly now0 ''a.png'')) now0 ''a.png''))
       = [''a.png'']
   \<and> map_of (entries fsEmpty) (getCacheFilePath env0 ''.'') = Some (dirNode 1793000000000)
   \<and> fetchCalls (snd (proxy env0 net_ok fsEmpty now0 ''.'')) = []"
proof -
  have p: "getCacheFilePath env0 ''a.png'' = ''/app/cache/a.png''"
    by (simp add: getCacheFilePath_def cacheDir_env0 join_a_png)
  have m: "isCacheValid env0 fsReadOnly now0 ''/app/cache/a.png'' = Inr False"
    by (simp add: fs_eval fsEmpty_def fsReadOnly_def)
  have f: "fetchFromGitHubRaw env0 net_ok ''a.png'' = Inr ''PNGDATA''"
    by (simp add: fetchFromGitHubRaw_def env0_def net_ok_def)
  have w: "writeFileSync fsReadOnly now0 ''/app/cache/a.png'' ''PNGDATA'' = Inl EACCES"
    by (simp add: writeFileSync_def fsReadOnly_def)
  have first: "proxy env0 net_ok fsReadOnly now0 ''a.png''
       = (fsReadOnly, [RemoteFetch ''a.png'', Respond (Json 404 ''File not found or fetch failed'')])"
    by (simp add: proxy_def Let_def p m f w notFound_def)
  have d: "getCacheFilePath env0 ''.'' = ''/app/cache''"
    by (simp add: getCacheFilePath_def cacheDir_env0) (simp add: path_eval)
  have v: "isCacheValid env0 fsEmpty now0 ''/app/cache'' = Inr True"
    by (simp add: fs_eval fsEmpty_def threeMonthsAgo_now0)
  have dot: "fetchCalls (snd (proxy env0 net_ok fsEmpty now0 ''.'')) = []"
    using proxy_hit [of env0 fsEmpty now0 "''.''" net_ok] v
    by (simp add: d fetchCalls_def)
  show ?thesis
    using first dot f
    by (simp add: p d fetchCalls_def fsReadOnly_def fsEmpty_def hostDirs_def)
qed

text \<open>
  C4, amended. Let the key be one ordinary path segment, and let nothing exist at its
  location. The location lies inside the cache directory, and the route calls the remote
  source exactly once, for that key, whatever the outcome. When the fetch succeeds and the
  write of the fetched bytes succeeds, the file at that location holds the fetched bytes
  after the request, also when the size-triggered sweep ran; and a following request for
  the same key, at the same instant or at any instant before the new entry expires, takes
  the hit branch: it makes no remote call and leaves the state as it is, and it is
  answered with that file when the path has no segment starting with a dot, no
  \<^verbatim>\<open>..\<close> after a backslash and no NUL byte (paths that \<^verbatim>\<open>res.sendFile\<close> refuses).
\<close>

theorem plain_miss_fetches_once_then_hit:
  assumes "wf_dir (dirname e)" "wf_fs s" "tz_sane e" "validName key"
    and "map_of (entries s) (getCacheFilePath e key) = None"
  shows "inside_dir (cacheDir e) (getCacheFilePath e key)
     \<and> fetchCalls (snd (proxy e fetch s now key)) = [key]
     \<and> (\<forall>fileBuffer s1. fetchFromGitHubRaw e fetch key = Inr fileBuffer
            \<and> writeFileSync s now (getCacheFilePath e key) fileBuffer = Inr s1 \<longrightarrow>
          servedBytes (fst (proxy e fetch s now key)) (SendFile (getCacheFilePath e key))
            = Some fileBuffer
          \<and> (\<forall>fetch' now'. threeMonthsAgo e now' < now \<longrightarrow>
                proxy e fetch' (fst (proxy e fetch s now key)) now' key
                  = (fst (proxy e fetch s now key),
                     [Respond (hitAnswer (fst (proxy e fetch s now key)) (getCacheFilePath e key))]))
          \<and> (\<forall>fetch'. fetchCalls (snd (proxy e fetch' (fst (proxy e fetch s now key)) now key)) = [])
          \<and> (CHR 0x00 \<notin> set (getCacheFilePath e key) \<and> \<not> upPath (getCacheFilePath e key)
                \<and> \<not> containsDotFile (split_on CHR ''/'' (normalizePath (getCacheFilePath e key))) \<longrightarrow>
              hitAnswer (fst (proxy e fetch s now key)) (getCacheFilePath e key)
                = SendFile (getCacheFilePath e key)))"
proof -
  let ?p = "getCacheFilePath e key"
  have loc: "?p = cacheDir e @ ''/'' @ key" and ins: "inside_dir (cacheDir e) ?p"
    by (rule getCacheFilePath_valid_name [OF assms(1,4)])+
  have nt: "\<not> hasTrailingSlash ?p"
    unfolding loc by (rule child_no_trailing [OF assms(4)])
  have ab: "?p \<noteq> []" "hd ?p = CHR ''/''" "1 < length ?p"
    using cacheDir_wf(2) [OF assms(1)] assms(4)
    by (auto simp: loc wf_dir_def validName_def)
  have miss: "isCacheValid e s now ?p = Inr False"
    using assms(5) by (simp add: isCacheValid_def existsSync_def stat_def nodeAt_lookup [OF nt])
  have once: "fetchCalls (snd (proxy e fetch s now key)) = [key]"
    using miss
    by (simp add: proxy_def Let_def fetchCalls_def split: sum.splits prod.splits)
  have rest: "servedBytes (fst (proxy e fetch s now key)) (SendFile ?p) = Some buf
      \<and> (\<forall>fetch' now'. threeMonthsAgo e now' < now \<longrightarrow>
            proxy e fetch' (fst (proxy e fetch s now key)) now' key
              = (fst (proxy e fetch s now key),
                 [Respond (hitAnswer (fst (proxy e fetch s now key)) ?p)]))
      \<and> (\<forall>fetch'. fetchCalls (snd (proxy e fetch' (fst (proxy e fetch s now key)) now key)) = [])
      \<and> (CHR 0x00 \<notin> set ?p \<and> \<not> upPath ?p
            \<and> \<not> containsDotFile (split_on CHR ''/'' (normalizePath ?p)) \<longrightarrow>
            hitAnswer (fst (proxy e fetch s now key)) ?p = SendFile ?p)"
    if ok: "fetchFromGitHubRaw e fetch key = Inr buf"
      and wr: "writeFileSync s now ?p buf = Inr s1" for buf s1
  proof -
    define f where "f = \<lparr> content = buf, modified = now, isDirectory = False,
      statFails = False, unlinkFails = False \<rparr>"
    define s2 where "s2 = fst (proxy e fetch s now key)"
    have s1: "s1 = s\<lparr> entries := put_file ?p buf now (entries s) \<rparr>"
      using wr by (auto simp: writeFileSync_def split: if_splits option.splits sum.splits)
    have wf1: "wf_fs s1"
      using assms(2) by (simp add: wf_fs_def s1 put_file_distinct)
    have l1: "map_of (entries s1) ?p = Some f"
      using assms(5) by (simp add: s1 f_def map_of_put_file_new)
    have fresh: "threeMonthsAgo e now < modified f"
      using threeMonthsAgo_before [OF assms(3), of now] by (simp add: f_def)
    have s2_cases: "s2 = s1 \<or> s2 = fst (cleanupExpiredCacheFiles e s1 now)"
      using miss ok wr by (auto simp: s2_def proxy_def Let_def split: prod.splits)
    have l2: "map_of (entries s2) ?p = Some f"
      using s2_cases l1 cleanup_keeps_valid [OF assms(1) wf1 l1 fresh] by auto
    have n2: "nodeAt s2 ?p = Inr f"
      using l2 by (simp add: nodeAt_lookup [OF nt] f_def)
    have hit: "proxy e fetch' s2 now' key = (s2, [Respond (hitAnswer s2 ?p)])"
      if "threeMonthsAgo e now' < now" for fetch' now'
    proof -
      have "isCacheValid e s2 now' ?p = Inr True"
        using n2 that by (simp add: isCacheValid_True_iff stat_def f_def)
      then show ?thesis by (rule proxy_hit)
    qed
    have "threeMonthsAgo e now < now"
      by (rule threeMonthsAgo_before [OF assms(3)])
    then have "fetchCalls (snd (proxy e fetch' s2 now key)) = []" for fetch'
      using hit [of now fetch'] by (simp add: fetchCalls_def)
    moreover have "servedBytes s2 (SendFile ?p) = Some buf"
      using n2 by (simp add: servedBytes_def f_def)
    moreover have "hitAnswer s2 ?p = SendFile ?p"
      if "CHR 0x00 \<notin> set ?p \<and> \<not> upPath ?p
          \<and> \<not> containsDotFile (split_on CHR ''/'' (normalizePath ?p))"
      using that n2 nt ab
      by (auto simp: hitAnswer_def sendFile_def sendStream_def dotfileIgnored_def
            hasTrailingSlash_def f_def Let_def)
    ultimately show ?thesis
      using hit unfolding s2_def [symmetric] by simp
  qed
  from ins once rest show ?thesis by blast
qed

theorem plain_miss_fetches_once_then_hit_witness:
  "wf_dir (dirname env0) \<and> wf_fs fsEmpty \<and> tz_sane env0 \<and> validName ''a.png''
   \<and> map_of (entries fsEmpty) (getCacheFilePath env0 ''a.png'') = None
   \<and> fetchFromGitHubRaw env0 net_ok ''a.png'' = Inr ''PNGDATA''
   \<and> (\<exists>s1. writeFileSync fsEmpty now0 (getCacheFilePath env0 ''a.png'') ''PNGDATA'' = Inr s1)
   \<and> inside_dir (cacheDir env0) (getCacheFilePath env0 ''a.png'')
   \<and> fetchCalls (snd (proxy env0 net_ok fsEmpty now0 ''a.png'')) = [''a.png'']
   \<and> servedBytes (fst (proxy env0 net_ok fsEmpty now0 ''a.png''))
        (SendFile (getCacheFilePath env0 ''a.png'')) = Some ''PNGDATA''
   \<and> proxy env0 net_down (fst (proxy env0 net_ok fsEmpty now0 ''a.png'')) now0 ''a.png''
        = (fst (proxy env0 net_ok fsEmpty now0 ''a.png''),
           [Respond (SendFile ''/app/cache/a.png'')])"
proof -
  have p: "getCacheFilePath env0 ''a.png'' = ''/app/cache/a.png''"
    by (simp add: getCacheFilePath_def cacheDir_env0 join_a_png)
  have v: "validName ''a.png''" by (simp add: validName_def)
  have a: "map_of (entries fsEmpty) (getCacheFilePath env0 ''a.png'') = None"
    by (simp add: p fsEmpty_def hostDirs_def)
  have b: "fetchFromGitHubRaw env0 net_ok ''a.png'' = Inr ''PNGDATA''"
    by (simp add: fetchFromGitHubRaw_def env0_def net_ok_def)
  have c: "\<exists>s1. writeFileSync fsEmpty now0 (getCacheFilePath env0 ''a.png'') ''PNGDATA'' = Inr s1"
    by (simp add: p write_a_png)
  have d: "threeMonthsAgo env0 now0 < now0"
    by (simp add: threeMonthsAgo_now0) (simp add: now0_def)
  have g: "CHR 0x00 \<notin> set (getCacheFilePath env0 ''a.png'')
      \<and> \<not> upPath (getCacheFilePath env0 ''a.png'')
      \<and> \<not> containsDotFile (split_on CHR ''/'' (normalizePath (getCacheFilePath env0 ''a.png'')))"
    by (simp add: p send_eval)
  from plain_miss_fetches_once_then_hit [OF wf_dir_env0 wf_fsEmpty tz_sane_env0 v a, of net_ok now0]
  show ?thesis
    using a b c d g v wf_dir_env0 wf_fsEmpty tz_sane_env0 p by metis
qed

text \<open>
  C5 (the sweep is idempotent). From a well-formed state, when no entry that is valid at the
  instant of the first sweep is expired at the instant of the second, a second sweep run on
  the state the first one left reports \<^verbatim>\<open>{deletedCount: 0, freedSpace: 0}\<close> and
  leaves that state as it is. The faults of the host are part of the state: an entry that
  could not be removed by the first sweep cannot be removed by the second.
\<close>

theorem sweep_idempotent:
  assumes "wf_dir (dirname e)" "wf_fs s"
    and "\<forall>en \<in> set (entries s).
           threeMonthsAgo e now < modified (snd en) \<longrightarrow> threeMonthsAgo e now' < modified (snd en)"
  shows "cleanupExpiredCacheFiles e (fst (cleanupExpiredCacheFiles e s now)) now'
         = (fst (cleanupExpiredCacheFiles e s now), \<lparr> deletedCount = 0, freedSpace = 0 \<rparr>)"
proof (cases "readdirFails s (cacheDir e)")
  case True
  then have "\<And>t. getExpiredCacheFiles e s t = []"
    by (simp add: getExpiredCacheFiles_def readdir_def)
  then show ?thesis by (simp add: cleanupExpiredCacheFiles_def)
next
  case False
  define s1 where "s1 = s\<lparr> entries := filter (\<lambda>en. \<not> removable e now en) (entries s) \<rparr>"
  have first: "fst (cleanupExpiredCacheFiles e s now) = s1"
    by (simp add: cleanup_char [OF assms(1,2) False] s1_def)
  have wf1: "wf_fs s1"
    using assms(2) by (simp add: wf_fs_def s1_def distinct_map_filter)
  have rd1: "\<not> readdirFails s1 (cacheDir e)"
    using False by (simp add: s1_def)
  have none: "filter (removable e now') (entries s1) = []"
  proof -
    have "\<not> removable e now' en" if "en \<in> set (entries s1)" for en
    proof
      assume r: "removable e now' en"
      from that have mem: "en \<in> set (entries s)" and nr: "\<not> removable e now en"
        by (simp_all add: s1_def)
      from r have "modified (snd en) \<le> threeMonthsAgo e now'"
        by (simp add: removable_def expiredEntry_def)
      with assms(3) mem have "modified (snd en) \<le> threeMonthsAgo e now"
        by force
      with r have "removable e now en"
        by (simp add: removable_def expiredEntry_def)
      with nr show False ..
    qed
    then show ?thesis by (simp add: filter_empty_conv)
  qed
  then have all: "filter (\<lambda>en. \<not> removable e now' en) (entries s1) = entries s1"
    by (simp add: filter_empty_conv filter_id_conv)
  show ?thesis
    unfolding first by (simp add: cleanup_char [OF assms(1) wf1 rd1] none all)
qed

theorem sweep_idempotent_witness:
  "wf_dir (dirname env0) \<and> wf_fs fs0
   \<and> cleanupExpiredCacheFiles env0 fs0 now0
       = (fs0\<lparr> entries := tl (entries fs0) \<rparr>, \<lparr> deletedCount = 1, freedSpace = 3 \<rparr>)
   \<and> cleanupExpiredCacheFiles env0 (fs0\<lparr> entries := tl (entries fs0) \<rparr>) now0
       = (fs0\<lparr> entries := tl (entries fs0) \<rparr>, \<lparr> deletedCount = 0, freedSpace = 0 \<rparr>)"
proof -
  have h: "\<forall>en \<in> set (entries fs0).
      threeMonthsAgo env0 now0 < modified (snd en) \<longrightarrow> threeMonthsAgo env0 now0 < modified (snd en)"
    by simp
  from sweep_idempotent [OF wf_dir_env0 wf_fs0 h] show ?thesis
    by (simp add: sweep_fs0 wf_dir_env0 wf_fs0)
qed



text \<open>
  C7 (failures on single entries are skipped). With a readable cache directory, the
  enumeration yields the record of every entry of the directory whose metadata can be read
  and whose modification time is at or before the instant three months ago, whatever
  happens to the other entries; the sweep removes exactly those of them whose removal does
  not fail, keeps every other file, and reports the number and the total size of the files
  it removed.
\<close>

theorem partial_failures_skipped:
  assumes "wf_dir (dirname e)" "wf_fs s" "\<not> readdirFails s (cacheDir e)"
  shows "getExpiredCacheFiles e s now
           = map (expiredRecord e now) (filter (expiredEntry e now) (entries s))
         \<and> cleanupExpiredCacheFiles e s now
           = (s\<lparr> entries := filter (\<lambda>en. \<not> removable e now en) (entries s) \<rparr>,
              \<lparr> deletedCount = length (filter (removable e now) (entries s)),
                freedSpace = sum_list (map (\<lambda>en. length (content (snd en)))
                                           (filter (removable e now) (entries s))) \<rparr>)"
  using getExpiredCacheFiles_char [OF assms] cleanup_char [OF assms] by simp

theorem partial_failures_skipped_witness:
  "wf_dir (dirname env0) \<and> wf_fs fs0 \<and> \<not> readdirFails fs0 (cacheDir env0)
   \<and> map ef_name (getExpiredCacheFiles env0 fs0 now0) = [''old.png'', ''stuck.png'']
   \<and> map fst (entries (fst (cleanupExpiredCacheFiles env0 fs0 now0)))
       = [''/app/cache/new.png'', ''/app/cache/stuck.png'', ''/app/cache/ghost.png'',
          ''/'', ''/app'', ''/app/cache'']
   \<and> snd (cleanupExpiredCacheFiles env0 fs0 now0) = \<lparr> deletedCount = 1, freedSpace = 3 \<rparr>"
proof -
  have r: "\<not> readdirFails fs0 (cacheDir env0)" by (simp add: fs0_def)
  from partial_failures_skipped [OF wf_dir_env0 wf_fs0 r, of now0] show ?thesis
    by (simp add: wf_dir_env0 wf_fs0 r)
       (simp add: fs0_def hostDirs_def dirNode_def canUnlink_def childName_def validName_def
          expiredEntry_def removable_def expiredRecord_def cacheDir_env0 threeMonthsAgo_now0)
qed

text \<open>
  C8 (an unreadable cache directory gives empty results). When listing the cache
  directory fails, \<^verbatim>\<open>getCacheStats\<close> returns the zero record and
  \<^verbatim>\<open>getExpiredCacheFiles\<close> returns the empty list; both are plain values, no error
  reaches the caller.
\<close>

theorem unreadable_directory_degrades:
  assumes "readdir s (cacheDir e) = Inl err"
  shows "getCacheStats e s = \<lparr> totalFiles = 0, totalSize = 0, totalSizeMB = 0 \<rparr>
         \<and> getExpiredCacheFiles e s now = []"
  using assms by (simp add: getCacheStats_def getExpiredCacheFiles_def)

theorem unreadable_directory_degrades_witness:
  "readdir (fs0\<lparr> readdirFails := (\<lambda>d. True) \<rparr>) (cacheDir env0) = Inl EACCES
   \<and> getCacheStats env0 (fs0\<lparr> readdirFails := (\<lambda>d. True) \<rparr>)
       = \<lparr> totalFiles = 0, totalSize = 0, totalSizeMB = 0 \<rparr>
   \<and> getExpiredCacheFiles env0 (fs0\<lparr> readdirFails := (\<lambda>d. True) \<rparr>) now0 = []"
proof -
  have r: "readdir (fs0\<lparr> readdirFails := (\<lambda>d. True) \<rparr>) (cacheDir env0) = Inl EACCES"
    by (simp add: readdir_def)
  from unreadable_directory_degrades [OF r, of now0] r show ?thesis by simp
qed

text \<open>
  C9 (a stale entry and a failed re-fetch). When the file at the location of the key can
  be read but was modified at or before the instant three months ago, and the remote fetch
  fails, the route makes that one fetch and answers with status 404 and the body
  \<^verbatim>\<open>{error: 'File not found or fetch failed'}\<close>; the file system is returned as it
  was, so the stale file is neither changed nor removed, and the answer carries no file
  bytes.
\<close>

theorem stale_entry_failed_fetch:
  assumes "stat s (getCacheFilePath e key) = Inr st"
    and "st_mtime st \<le> threeMonthsAgo e now"
    and "fetchFromGitHubRaw e fetch key = Inl err"
  shows "proxy e fetch s now key
           = (s, [RemoteFetch key, Respond (Json 404 ''File not found or fetch failed'')])
         \<and> servedBytes s (Json 404 ''File not found or fetch failed'') = None"
proof -
  from assms(1,2) have "isCacheValid e s now (getCacheFilePath e key) = Inr False"
    by (simp add: isCacheValid_False_iff)
  with assms(3) show ?thesis
    by (simp add: proxy_def Let_def notFound_def servedBytes_def)
qed

theorem stale_entry_failed_fetch_witness:
  "stat fs0 (getCacheFilePath env0 ''old.png'') = Inr \<lparr> st_size = 3, st_mtime = 1785751200000 \<rparr>
   \<and> (1785751200000::int) \<le> threeMonthsAgo env0 now0
   \<and> fetchFromGitHubRaw env0 net_down ''old.png'' = Inl (NetworkError ''down'')
   \<and> proxy env0 net_down fs0 now0 ''old.png''
       = (fs0, [RemoteFetch ''old.png'', Respond (Json 404 ''File not found or fetch failed'')])"
proof -
  have a: "stat fs0 (getCacheFilePath env0 ''old.png'') = Inr \<lparr> st_size = 3, st_mtime = 1785751200000 \<rparr>"
    by (simp add: fs_eval fs0_def)
  have b: "st_mtime \<lparr> st_size = 3, st_mtime = 1785751200000 \<rparr> \<le> threeMonthsAgo env0 now0"
    by (simp add: threeMonthsAgo_now0)
  have c: "fetchFromGitHubRaw env0 net_down ''old.png'' = Inl (NetworkError ''down'')"
    by (simp add: fetchFromGitHubRaw_def env0_def net_down_def)
  from stale_entry_failed_fetch [OF a b c] a b c show ?thesis by simp
qed

text \<open>
  C10 (a failed cache write fails the request). On a miss, when the remote fetch succeeds
  and writing the fetched bytes to the cache location throws, the route answers with the
  same status 404 and error body; the fetched bytes are not sent.
\<close>

theorem write_failure_not_served:
  assumes "isCacheValid e s now (getCacheFilePath e key) = Inr False"
    and "fetchFromGitHubRaw e fetch key = Inr fileBuffer"
    and "writeFileSync s now (getCacheFilePath e key) fileBuffer = Inl err"
  shows "proxy e fetch s now key
           = (s, [RemoteFetch key, Respond (Json 404 ''File not found or fetch failed'')])
         \<and> servedBytes s (Json 404 ''File not found or fetch failed'') \<noteq> Some fileBuffer"
  using assms by (simp add: proxy_def Let_def notFound_def servedBytes_def)

theorem write_failure_not_served_witness:
  "isCacheValid env0 (fs0\<lparr> writeFails := (\<lambda>p. True) \<rparr>) now0 (getCacheFilePath env0 ''fresh.png'') = Inr False
   \<and> fetchFromGitHubRaw env0 net_ok ''fresh.png'' = Inr ''PNGDATA''
   \<and> writeFileSync (fs0\<lparr> writeFails := (\<lambda>p. True) \<rparr>) now0 (getCacheFilePath env0 ''fresh.png'') ''PNGDATA''
       = Inl EACCES
   \<and> proxy env0 net_ok (fs0\<lparr> writeFails := (\<lambda>p. True) \<rparr>) now0 ''fresh.png''
       = (fs0\<lparr> writeFails := (\<lambda>p. True) \<rparr>,
          [RemoteFetch ''fresh.png'', Respond (Json 404 ''File not found or fetch failed'')])"
proof -
  let ?s = "fs0\<lparr> writeFails := (\<lambda>p. True) \<rparr>"
  have a: "isCacheValid env0 ?s now0 (getCacheFilePath env0 ''fresh.png'') = Inr False"
    by (simp add: fs_eval fs0_def)
  have b: "fetchFromGitHubRaw env0 net_ok ''fresh.png'' = Inr ''PNGDATA''"
    by (simp add: fetchFromGitHubRaw_def env0_def net_ok_def)
  have c: "writeFileSync ?s now0 (getCacheFilePath env0 ''fresh.png'') ''PNGDATA'' = Inl EACCES"
    by (simp add: writeFileSync_def)
  from write_failure_not_served [OF a b c] a b c show ?thesis by simp
qed

end
